theory Spec2Isabelle
  imports Complex_Main "HOL-Library.Log_Nat"
begin

section \<open>Time values\<close>

text \<open>
  A naive \<^verbatim>\<open>datetime\<close> is modelled by the number of microseconds since midnight of
  a fixed day 0, a \<^verbatim>\<open>timedelta\<close> by a number of microseconds, a \<^verbatim>\<open>date\<close> by a day
  number and a \<^verbatim>\<open>time\<close> by the microsecond of the day. The fields Python reads off a
  datetime are the corresponding digits of that count; the bounds of the type (the years
  1 to 9999) are not modelled, so adding a timedelta never overflows.

  A Python float is modelled by the rational number it holds. The hours of a time span,
  \<^verbatim>\<open>td.total_seconds() / 3600\<close>, and \<^verbatim>\<open>round(x, 2)\<close> are rounded to the nearest
  double as Python rounds them (\<open>to_double\<close>, below): these decide the recorded
  hours. The sums and products of the session builder and the arithmetic inside the
  quarter-hour rounding are computed exactly. For the quarter-hour
  rounding this loses nothing: the ties of \<open>total / 15\<close> are 0.5, 1.5, 2.5 and 3.5,
  which floats hold exactly, and every other value is more than a billionth away from a
  tie, far beyond the rounding error of the three float operations. The examples below
  use times and settings whose float values are exact or land on the same microsecond.
\<close>

type_synonym datetime = int
type_synonym timedelta = int

definition microsecond :: "datetime \<Rightarrow> int" where
  "microsecond dt = dt mod 1000000"

definition second :: "datetime \<Rightarrow> int" where
  "second dt = (dt div 1000000) mod 60"

definition minute :: "datetime \<Rightarrow> int" where
  "minute dt = (dt div 60000000) mod 60"


definition date_of :: "datetime \<Rightarrow> int" where
  "date_of dt = dt div 86400000000"

definition time_of :: "datetime \<Rightarrow> int" where
  "time_of dt = dt mod 86400000000"

definition combine :: "int \<Rightarrow> int \<Rightarrow> datetime" where
  \<comment> \<open>\<^verbatim>\<open>datetime.combine(date, time)\<close>\<close>
  "combine d t = d * 86400000000 + t"

definition py_round :: "rat \<Rightarrow> int" where
  \<comment> \<open>Python's one-argument \<^verbatim>\<open>round\<close>: nearest integer, ties to the even one\<close>
  "py_round x =
     (let f = \<lfloor>x\<rfloor>; d = x - of_int f
      in if d < 1 / 2 then f
         else if 1 / 2 < d then f + 1
         else if even f then f else f + 1)"

text \<open>
  Rounding to the nearest double, ties to the even significand: for \<open>x\<close> from
  \<open>2 ^ e\<close> up to \<open>2 ^ (e + 1)\<close> the doubles are the multiples of \<open>2 ^ (e - 52)\<close>.
  The exponent range of the format is not modelled; the hours of a session are far
  inside it.
\<close>

definition floor_log2 :: "rat \<Rightarrow> int" where
  \<comment> \<open>for \<open>x > 0\<close>, the \<open>e\<close> with \<open>2 ^ e \<le> x < 2 ^ (e + 1)\<close>\<close>
  "floor_log2 x =
     (let (p, q) = quotient_of x; d = bitlen p - bitlen q
      in if 2 powi d \<le> x then d else d - 1)"

definition to_double :: "rat \<Rightarrow> rat" where
  "to_double x =
     (if x = 0 then 0
      else let e = floor_log2 \<bar>x\<bar>; ulp = 2 powi (e - 52)
           in of_int (py_round (x / ulp)) * ulp)"

definition round2 :: "rat \<Rightarrow> rat" where
  \<comment> \<open>\<^verbatim>\<open>round(x, 2)\<close> of a float: the exact value of \<open>x\<close> is rounded to hundredths,
      ties to even, and the result is the double nearest to that decimal\<close>
  "round2 x = to_double (of_int (py_round (x * 100)) / 100)"

definition timedelta_hours :: "rat \<Rightarrow> timedelta" where
  \<comment> \<open>\<^verbatim>\<open>timedelta(hours=h)\<close>: the constructor rounds to whole microseconds\<close>
  "timedelta_hours h = py_round (h * 3600000000)"

definition total_hours :: "timedelta \<Rightarrow> rat" where
  \<comment> \<open>\<^verbatim>\<open>td.total_seconds() / 3600\<close>: the microseconds divided by a million, as a
      double, divided by 3600, as a double\<close>
  "total_hours td = to_double (to_double (of_int td / 1000000) / 3600)"

definition replace_minute :: "datetime \<Rightarrow> int \<Rightarrow> datetime" where
  \<comment> \<open>\<^verbatim>\<open>dt.replace(minute=m, second=0, microsecond=0)\<close>, for \<open>m\<close> in \<open>0..59\<close>\<close>
  "replace_minute dt m = dt - dt mod 3600000000 + m * 60000000"

section \<open>Quarter-hour rounding\<close>

definition total_minutes :: "datetime \<Rightarrow> rat" where
  "total_minutes dt =
     of_int (minute dt) + of_int (second dt) / 60 + of_int (microsecond dt) / 60000000"

definition quarter_hours :: "datetime \<Rightarrow> int" where
  "quarter_hours dt = py_round (total_minutes dt / 15) * 15"

definition round_to_quarter_hour :: "datetime \<Rightarrow> datetime" where
  \<comment> \<open>the minute handed to \<^verbatim>\<open>replace\<close> is 0, 15, 30 or 45, so it does not raise\<close>
  "round_to_quarter_hour dt =
     (if quarter_hours dt \<ge> 60
      then replace_minute (dt + 3600000000) 0
      else replace_minute dt (quarter_hours dt))"

section \<open>Sessions and the merger\<close>

text \<open>
  A session is the dictionary the analyzer appends: a start date and time, an end date and
  time, and the recorded hours. The merger works on intervals, which carry the two
  combined datetimes and the session they came from.
\<close>

record session =
  start_date :: int
  start_time :: int
  end_date :: int
  end_time :: int
  hours :: rat

record interval =
  start_dt :: datetime
  end_dt :: datetime
  original :: session

definition session_start :: "session \<Rightarrow> datetime" where
  "session_start s = combine (start_date s) (start_time s)"

definition session_end :: "session \<Rightarrow> datetime" where
  "session_end s = combine (end_date s) (end_time s)"

definition to_interval :: "session \<Rightarrow> interval" where
  "to_interval s = \<lparr>start_dt = session_start s, end_dt = session_end s, original = s\<rparr>"

definition make_session :: "datetime \<Rightarrow> datetime \<Rightarrow> session" where
  \<comment> \<open>the dictionary built from two datetimes, its hours recomputed from them\<close>
  "make_session s e =
     (let actual_hours = total_hours (e - s)
      in \<lparr>start_date = date_of s, start_time = time_of s,
          end_date = date_of e, end_time = time_of e,
          hours = round2 actual_hours\<rparr>)"

definition finalize :: "interval \<Rightarrow> session" where
  "finalize i = make_session (start_dt i) (end_dt i)"

fun merge_loop :: "interval \<Rightarrow> interval list \<Rightarrow> interval list \<Rightarrow> interval list" where
  "merge_loop current [] merged = merged @ [current]"
| "merge_loop current (next_session # rest) merged =
     (if start_dt next_session \<le> end_dt current + 900000000
      then merge_loop (current\<lparr>end_dt := max (end_dt current) (end_dt next_session)\<rparr>) rest merged
      else merge_loop next_session rest (merged @ [current]))"

definition merge_overlapping_sessions :: "session list \<Rightarrow> session list" where
  \<comment> \<open>\<^verbatim>\<open>list.sort\<close> is stable, as \<open>sort_key\<close> is; the sorted list of a non-empty
      list is never empty, so its \<open>[]\<close> case is not reached\<close>
  "merge_overlapping_sessions sessions =
     (if sessions = [] then sessions
      else case sort_key start_dt (map to_interval sessions) of
             [] \<Rightarrow> []
           | current # rest \<Rightarrow> map finalize (merge_loop current rest []))"

definition separated :: "interval \<Rightarrow> interval \<Rightarrow> bool" where
  \<comment> \<open>the second interval starts more than 15 minutes after the first ends\<close>
  "separated a b \<longleftrightarrow> end_dt a + 900000000 < start_dt b"

definition overlaps :: "session \<Rightarrow> session \<Rightarrow> bool" where
  "overlaps a b \<longleftrightarrow> session_start a < session_end b \<and> session_start b < session_end a"

definition clock :: "int \<Rightarrow> int \<Rightarrow> int \<Rightarrow> datetime" where
  \<comment> \<open>the datetime at \<open>h:m\<close> of day \<open>d\<close>, for writing examples\<close>
  "clock d h m = d * 86400000000 + h * 3600000000 + m * 60000000"

definition example_sessions :: "session list" where
  \<comment> \<open>13:00-13:15, 09:00-09:30 and 09:40-10:00 of day 0, out of order\<close>
  "example_sessions =
     [make_session (clock 0 13 0) (clock 0 13 15),
      make_session (clock 0 9 0) (clock 0 9 30),
      make_session (clock 0 9 40) (clock 0 10 0)]"

definition short_sessions :: "session list" where
  \<comment> \<open>sessions of 18, 54 and 90 seconds, at 09:00, 10:00 and 11:00 of day 0\<close>
  "short_sessions =
     [make_session (clock 0 9 0) (clock 0 9 0 + 18000000),
      make_session (clock 0 10 0) (clock 0 10 0 + 54000000),
      make_session (clock 0 11 0) (clock 0 11 0 + 90000000)]"

section \<open>The session builder\<close>

record config =
  time_multiplier :: rat
  min_activity_hours :: rat
  max_session_gap_hours :: rat
  session_end_buffer :: rat
  min_activities :: int

definition default_config :: config where
  "default_config =
     \<lparr>time_multiplier = 1, min_activity_hours = 1 / 4, max_session_gap_hours = 2,
      session_end_buffer = 1 / 4, min_activities = 3\<rparr>"

definition ensure_minimum_session_duration ::
  "datetime \<Rightarrow> datetime \<Rightarrow> rat \<Rightarrow> datetime \<times> datetime" where
  "ensure_minimum_session_duration s e min_hours =
     (let duration_hours = total_hours (e - s)
      in if duration_hours < min_hours
         then (s, round_to_quarter_hour (s + timedelta_hours min_hours))
         else (s, e))"

definition close_session :: "datetime \<Rightarrow> datetime \<Rightarrow> session \<times> rat" where
  \<comment> \<open>The steps the analyzer repeats wherever it appends a session: round both ends,
      call \<open>ensure_minimum_session_duration\<close> without its third argument, so with the
      default \<open>min_hours = 0.25\<close>, and recompute the hours. The result is the
      dictionary appended and \<open>actual_hours\<close>.\<close>
  "close_session session_start_time session_end_time =
     (let rounded_start = round_to_quarter_hour session_start_time;
          rounded_end = round_to_quarter_hour session_end_time;
          (rounded_start, rounded_end) =
             ensure_minimum_session_duration rounded_start rounded_end (1 / 4);
          actual_hours = total_hours (rounded_end - rounded_start)
      in (make_session rounded_start rounded_end, actual_hours))"

text \<open>
  The loop over \<open>timestamps[1:]\<close> of a day with several events. Its state is the
  previous timestamp, \<open>current_session_start\<close>, \<open>daily_session_time\<close> and the
  project's session list (\<open>current_session_end\<close> is written but never read).
\<close>

fun session_loop ::
  "config \<Rightarrow> datetime \<Rightarrow> datetime list \<Rightarrow> datetime \<Rightarrow> rat \<Rightarrow> session list
    \<Rightarrow> datetime \<times> rat \<times> session list" where
  "session_loop cfg prev [] current_session_start daily_session_time sessions =
     (current_session_start, daily_session_time, sessions)"
| "session_loop cfg prev (t # ts) current_session_start daily_session_time sessions =
     (let time_diff = total_hours (t - prev)
      in if time_diff \<le> max_session_gap_hours cfg
         then session_loop cfg t ts current_session_start (daily_session_time + time_diff) sessions
         else
           (let session_duration =
                  (daily_session_time + min_activity_hours cfg) * time_multiplier cfg;
                session_end_time = current_session_start + timedelta_hours session_duration
            in session_loop cfg t ts t (min_activity_hours cfg)
                 (sessions @ [fst (close_session current_session_start session_end_time)])))"

text \<open>
  One iteration of the loop over the dates of a project: \<open>daily_hours\<close> and
  \<open>sessions\<close> go in and come out. A group of \<open>groupby\<close> is never empty, so the
  first equation is not reached.
\<close>

fun process_day ::
  "config \<Rightarrow> int \<Rightarrow> datetime list \<Rightarrow> (int \<rightharpoonup> rat) \<times> session list
    \<Rightarrow> (int \<rightharpoonup> rat) \<times> session list" where
  "process_day cfg date [] (daily_hours, sessions) = (daily_hours, sessions)"
| "process_day cfg date [t] (daily_hours, sessions) =
     (let nominal_end = t + timedelta_hours (min_activity_hours cfg * time_multiplier cfg);
          (s, actual_hours) = close_session t nominal_end
      in (daily_hours(date \<mapsto> actual_hours), sessions @ [s]))"
| "process_day cfg date (t0 # ts) (daily_hours, sessions) =
     (let (current_session_start, daily_session_time, sessions) =
            session_loop cfg t0 ts t0 0 sessions;
          final_session_duration =
            (daily_session_time + session_end_buffer cfg) * time_multiplier cfg;
          final_session_end = current_session_start + timedelta_hours final_session_duration;
          sessions = sessions @ [fst (close_session current_session_start final_session_end)]
      in (daily_hours(date \<mapsto>
            sum_list (map hours (filter (\<lambda>s. start_date s = date) sessions))),
          sessions))"

definition day_groups :: "datetime list \<Rightarrow> (int \<times> datetime list) list" where
  \<comment> \<open>\<^verbatim>\<open>groupby('date')\<close>: the dates in ascending order, each with its sorted
      timestamps\<close>
  "day_groups dts =
     map (\<lambda>d. (d, sort (filter (\<lambda>t. date_of t = d) dts))) (sort (remdups (map date_of dts)))"

definition build_sessions :: "config \<Rightarrow> datetime list \<Rightarrow> (int \<rightharpoonup> rat) \<times> session list" where
  \<comment> \<open>the daily hours and the session list of one project when the loop over its
      dates ends, before the merger runs\<close>
  "build_sessions cfg dts =
     fold (\<lambda>(date, timestamps). process_day cfg date timestamps) (day_groups dts) (Map.empty, [])"

definition analyze_project :: "config \<Rightarrow> datetime list \<Rightarrow> (int \<rightharpoonup> rat) \<times> session list" where
  "analyze_project cfg dts =
     (let (daily_hours, sessions) = build_sessions cfg dts
      in (daily_hours, merge_overlapping_sessions sessions))"

section \<open>The project classifier\<close>

text \<open>
  Strings are lists of characters, one character for each code point; the texts are
  taken to have code points below 256 only, which is what a character can hold. Of
  these, \<^verbatim>\<open>str.isspace\<close> holds for 9 to 13, 28 to 32, 133 and 160. \<open>split\<close> is
  \<^verbatim>\<open>str.split(sep)\<close> for a non-empty separator, \<open>contains\<close> is \<^verbatim>\<open>sep in s\<close> and
  \<open>strip\<close> is \<^verbatim>\<open>str.strip()\<close>.
\<close>

function split_from :: "string \<Rightarrow> string \<Rightarrow> string \<Rightarrow> string list" where
  "split_from sep cur [] = [rev cur]"
| "split_from sep cur (c # s) =
     (if sep \<noteq> [] \<and> take (length sep) (c # s) = sep
      then rev cur # split_from sep [] (drop (length sep) (c # s))
      else split_from sep (c # cur) s)"
  by pat_completeness auto
termination
  by (relation "measure (\<lambda>(sep, cur, s). length s)") (auto simp: Suc_le_eq)

definition split :: "string \<Rightarrow> string \<Rightarrow> string list" where
  "split sep s = split_from sep [] s"

fun contains :: "string \<Rightarrow> string \<Rightarrow> bool" where
  "contains sep [] = (sep = [])"
| "contains sep (c # s) = (take (length sep) (c # s) = sep \<or> contains sep s)"

definition is_space :: "char \<Rightarrow> bool" where
  "is_space c =
     (let n = (of_char c :: nat)
      in (9 \<le> n \<and> n \<le> 13) \<or> (28 \<le> n \<and> n \<le> 32) \<or> n = 133 \<or> n = 160)"

definition strip :: "string \<Rightarrow> string" where
  "strip s = rev (dropWhile is_space (rev (dropWhile is_space s)))"

record row =
  timestamp :: "int option"
  dataLink :: string
  blurb :: string

text \<open>
  A row holds the timestamp cell after \<^verbatim>\<open>to_numeric(errors='coerce')\<close>, \<open>None\<close> where
  the cell is not numeric, and the strings \<^verbatim>\<open>str(row.get('dataLink', ''))\<close> and
  \<^verbatim>\<open>str(row.get('blurb', ''))\<close>, which are \<open>''nan''\<close> for a missing cell. The path
  that \<^verbatim>\<open>urlparse\<close> gives for a link is a parameter, \<open>None\<close> where it raises.
\<close>

definition project_of_row :: "(string \<Rightarrow> string option) \<Rightarrow> row \<Rightarrow> string" where
  "project_of_row urlparse_path r =
     (let data_link = dataLink r
      in if data_link \<noteq> [] \<and> data_link \<noteq> ''nan''
         then
           (case urlparse_path data_link of
              Some path \<Rightarrow>
                (let path_segments = filter (\<lambda>seg. seg \<noteq> []) (split ''/'' path)
                 in if length path_segments \<ge> 4 then path_segments ! 3
                    else if length path_segments \<ge> 3 then path_segments ! 2
                    else ''Unknown_Project'')
            | None \<Rightarrow>
                (let parts = split ''/'' data_link
                 in if length parts > 6 then parts ! 6 else ''Unknown_Project''))
         else
           (let text = blurb r
            in if contains ''In '' text \<and> contains ''['' text
               then
                 (case split ''In '' text of
                    _ # after_in # _ \<Rightarrow>
                      (case split '' ['' after_in of
                         [] \<Rightarrow> ''Unknown_Project''
                       | project_name # _ \<Rightarrow>
                           (let project_name = strip project_name
                            in if project_name \<noteq> [] \<and> length project_name < 100
                                  \<and> CHR 0x0A \<notin> set project_name
                               then project_name
                               else ''Unknown_Project''))
                  | _ \<Rightarrow> ''Unknown_Project'')
               else ''Unknown_Project''))"

definition extract_project_names :: "(string \<Rightarrow> string option) \<Rightarrow> row list \<Rightarrow> string list" where
  \<comment> \<open>the project of each row, in row order, for the dictionary keyed by row index\<close>
  "extract_project_names urlparse_path df = map (project_of_row urlparse_path) df"

section \<open>The analysis of all projects\<close>

record results =
  project_hours :: "string \<rightharpoonup> (int \<rightharpoonup> rat)"
  project_sessions :: "string \<rightharpoonup> session list"
  project_counts :: "string \<rightharpoonup> nat"

definition empty_results :: results where
  \<comment> \<open>\<^verbatim>\<open>return {}, {}, {}\<close>\<close>
  "empty_results =
     \<lparr>project_hours = Map.empty, project_sessions = Map.empty, project_counts = Map.empty\<rparr>"

definition numeric_rows :: "row list \<Rightarrow> (int \<times> row) list" where
  \<comment> \<open>\<^verbatim>\<open>dropna(subset=['timestamp'])\<close>: the rows with a numeric timestamp, each with
      its value\<close>
  "numeric_rows rows =
     List.map_filter (\<lambda>r. case timestamp r of None \<Rightarrow> None | Some t \<Rightarrow> Some (t, r)) rows"

definition is_milliseconds :: "int list \<Rightarrow> bool" where
  \<comment> \<open>\<^verbatim>\<open>df['timestamp'].max() > 1e12\<close>; the maximum of an empty column is NaN and
      the comparison false\<close>
  "is_milliseconds ts = (case ts of [] \<Rightarrow> False | t # ts' \<Rightarrow> 1000000000000 < fold max ts' t)"

definition to_datetimes :: "(datetime \<Rightarrow> datetime option) \<Rightarrow> int list \<Rightarrow> datetime list option" where
  \<comment> \<open>The conversion inside the \<^verbatim>\<open>try\<close>. The parameter \<open>localize\<close> stands for pandas
      turning a UTC instant, in microseconds, into the naive local time of the configured
      zone; it is \<open>None\<close> where pandas raises, and then the whole conversion fails.\<close>
  "to_datetimes localize ts =
     (let utc = (if is_milliseconds ts then map (\<lambda>t. t * 1000) ts
                 else map (\<lambda>t. t * 1000000) ts)
      in those (map localize utc))"

definition first_seen :: "'a list \<Rightarrow> 'a list" where
  \<comment> \<open>the keys of a \<^verbatim>\<open>Counter\<close>: the distinct elements, in order of first occurrence\<close>
  "first_seen xs = rev (remdups (rev xs))"

definition significant_projects :: "config \<Rightarrow> string list \<Rightarrow> string list" where
  "significant_projects cfg projects =
     filter (\<lambda>proj. int (count_list projects proj) \<ge> min_activities cfg \<and> proj \<noteq> ''Unknown_Project'')
       (first_seen projects)"

definition analyze_all_projects ::
  "(string \<Rightarrow> string option) \<Rightarrow> (datetime \<Rightarrow> datetime option) \<Rightarrow> config \<Rightarrow> row list \<Rightarrow> results" where
  "analyze_all_projects urlparse_path localize cfg rows =
     (let df = numeric_rows rows
      in case to_datetimes localize (map fst df) of
           None \<Rightarrow> empty_results
         | Some datetimes \<Rightarrow>
             (let projects = extract_project_names urlparse_path (map snd df);
                  events = zip projects datetimes;
                  per_project = (\<lambda>project_name.
                     analyze_project cfg (map snd (filter (\<lambda>e. fst e = project_name) events)));
                  significant = significant_projects cfg projects
              in \<lparr>project_hours = map_of (map (\<lambda>p. (p, fst (per_project p))) significant),
                  project_sessions = map_of (map (\<lambda>p. (p, snd (per_project p))) significant),
                  project_counts =
                    map_of (map (\<lambda>p. (p, count_list projects p)) (first_seen projects))\<rparr>))"

definition run_fails :: "(datetime \<Rightarrow> datetime option) \<Rightarrow> row list \<Rightarrow> bool" where
  \<comment> \<open>The run takes the \<^verbatim>\<open>except\<close> branch of the conversion: it prints
      \<^verbatim>\<open>Error converting timestamps\<close> and returns \<^verbatim>\<open>{}, {}, {}\<close>. This is the
      \<open>None\<close> case of \<open>analyze_all_projects\<close>.\<close>
  "run_fails localize rows \<longleftrightarrow> to_datetimes localize (map fst (numeric_rows rows)) = None"

definition counted_under :: "(string \<Rightarrow> string option) \<Rightarrow> row list \<Rightarrow> string \<Rightarrow> nat" where
  \<comment> \<open>the number of rows with a numeric timestamp that are classified as the project\<close>
  "counted_under urlparse_path rows project =
     length (filter (\<lambda>r. timestamp r \<noteq> None \<and> project_of_row urlparse_path r = project) rows)"

section \<open>Example data\<close>

definition example_urlparse :: "string \<Rightarrow> string option" where
  \<comment> \<open>the path of the one link of the example rows\<close>
  "example_urlparse link =
     (if link = ''https://www.dropbox.com/pri/get/Gitea_OD/Q/a.txt''
      then Some ''/pri/get/Gitea_OD/Q/a.txt'' else None)"

definition text_row :: "int \<Rightarrow> row" where
  \<comment> \<open>a row without a link, whose text names project P\<close>
  "text_row t = \<lparr>timestamp = Some t, dataLink = ''nan'', blurb = ''In P [x]''\<rparr>"

definition link_row :: row where
  \<comment> \<open>a row whose link names project Q\<close>
  "link_row =
     \<lparr>timestamp = Some 90000,
      dataLink = ''https://www.dropbox.com/pri/get/Gitea_OD/Q/a.txt'', blurb = ''nan''\<rparr>"

definition bad_row :: row where
  "bad_row = \<lparr>timestamp = None, dataLink = ''nan'', blurb = ''In P [x]''\<rparr>"

definition example_rows :: "row list" where
  \<comment> \<open>Timestamps in seconds. Project P has events at 23:30 and 23:40 of day 0 and at
      00:05 and 00:10 of day 1, and one row without a numeric timestamp; project Q has
      one event, at 01:00 of day 1.\<close>
  "example_rows =
     [text_row 84600, text_row 85200, bad_row, text_row 86700, text_row 87000, link_row]"

section \<open>The sessions of a day, by the minimum applied\<close>

text \<open>
  For stating what the builder appends: the session start and the nominal end at each
  place where the analyzer closes a session of a day. These are the \<open>session_end_time\<close>
  and \<open>final_session_end\<close> of the loop, and the \<open>end_time\<close> of a day with one
  event.
\<close>

fun segments_loop ::
  "config \<Rightarrow> datetime \<Rightarrow> datetime list \<Rightarrow> datetime \<Rightarrow> rat \<Rightarrow> (datetime \<times> datetime) list" where
  "segments_loop cfg prev [] current_session_start daily_session_time =
     [(current_session_start,
       current_session_start +
         timedelta_hours ((daily_session_time + session_end_buffer cfg) * time_multiplier cfg))]"
| "segments_loop cfg prev (t # ts) current_session_start daily_session_time =
     (let time_diff = total_hours (t - prev)
      in if time_diff \<le> max_session_gap_hours cfg
         then segments_loop cfg t ts current_session_start (daily_session_time + time_diff)
         else (current_session_start,
               current_session_start +
                 timedelta_hours ((daily_session_time + min_activity_hours cfg) * time_multiplier cfg))
              # segments_loop cfg t ts t (min_activity_hours cfg))"

fun day_segments :: "config \<Rightarrow> datetime list \<Rightarrow> (datetime \<times> datetime) list" where
  "day_segments cfg [] = []"
| "day_segments cfg [t] =
     [(t, t + timedelta_hours (min_activity_hours cfg * time_multiplier cfg))]"
| "day_segments cfg (t0 # ts) = segments_loop cfg t0 ts t0 0"

text \<open>
  The minimum-duration step in the words of the specification, for a minimum of \<open>m\<close>
  hours: a rounded end less than \<open>m\<close> after the rounded start is replaced by the rounded
  start plus \<open>m\<close>, rounded to the quarter hour again.
\<close>

definition floor_end :: "rat \<Rightarrow> datetime \<Rightarrow> datetime \<Rightarrow> datetime" where
  "floor_end m rounded_start rounded_end =
     (if total_hours (rounded_end - rounded_start) < m
      then round_to_quarter_hour (rounded_start + timedelta_hours m)
      else rounded_end)"

definition session_with_floor :: "rat \<Rightarrow> datetime \<times> datetime \<Rightarrow> session" where
  "session_with_floor m seg =
     (let rounded_start = round_to_quarter_hour (fst seg);
          rounded_end = round_to_quarter_hour (snd seg)
      in make_session rounded_start (floor_end m rounded_start rounded_end))"

definition sessions_with_floor :: "rat \<Rightarrow> config \<Rightarrow> datetime list \<Rightarrow> session list" where
  \<comment> \<open>the sessions of all days of a project, closed with the minimum \<open>m\<close>\<close>
  "sessions_with_floor m cfg dts =
     concat (map (\<lambda>(date, timestamps). map (session_with_floor m) (day_segments cfg timestamps))
       (day_groups dts))"

definition short_config :: config where
  \<comment> \<open>a minimum of half an hour, estimates halved, and projects of one event kept\<close>
  "short_config =
     default_config\<lparr>min_activity_hours := 1 / 2, time_multiplier := 1 / 2, min_activities := 1\<rparr>"

section \<open>Daily totals\<close>

definition day_total :: "session list \<Rightarrow> int \<Rightarrow> rat" where
  \<comment> \<open>\<^verbatim>\<open>sum(session['hours'] for session in sessions if session['start_date'] == date)\<close>\<close>
  "day_total sessions date =
     sum_list (map hours (filter (\<lambda>s. start_date s = date) sessions))"

definition daily_hours_of :: "results \<Rightarrow> string \<Rightarrow> int \<Rightarrow> rat option" where
  \<comment> \<open>\<^verbatim>\<open>project_hours[project][date]\<close>, \<open>None\<close> where a key is missing\<close>
  "daily_hours_of res project date =
     (case project_hours res project of None \<Rightarrow> None | Some daily_hours \<Rightarrow> daily_hours date)"

definition sessions_of :: "results \<Rightarrow> string \<Rightarrow> session list" where
  \<comment> \<open>\<^verbatim>\<open>project_sessions[project]\<close>, the post-merge list\<close>
  "sessions_of res project =
     (case project_sessions res project of None \<Rightarrow> [] | Some sessions \<Rightarrow> sessions)"

definition project_datetimes :: "string list \<Rightarrow> datetime list \<Rightarrow> string \<Rightarrow> datetime list" where
  \<comment> \<open>\<^verbatim>\<open>df[df['project'] == project_name]\<close>: the datetimes of the rows of one project\<close>
  "project_datetimes projects datetimes project_name =
     map snd (filter (\<lambda>e. fst e = project_name) (zip projects datetimes))"

section \<open>Facts about rounding\<close>

lemma py_round_cases: "py_round x = \<lfloor>x\<rfloor> \<or> py_round x = \<lfloor>x\<rfloor> + 1"
  by (simp add: py_round_def Let_def)

lemma py_round_nearest: "\<bar>of_int (py_round x) - x\<bar> \<le> 1 / 2"
proof -
  have "of_int \<lfloor>x\<rfloor> \<le> x" "x < of_int \<lfloor>x\<rfloor> + 1"
    by linarith+
  then show ?thesis
    by (auto simp: py_round_def Let_def)
qed

lemma py_round_tie_even:
  assumes "\<bar>of_int (py_round x) - x\<bar> = 1 / 2"
  shows "even (py_round x)"
proof -
  have fl: "of_int \<lfloor>x\<rfloor> \<le> x" "x < of_int \<lfloor>x\<rfloor> + 1"
    by linarith+
  show ?thesis
  proof (cases "x - of_int \<lfloor>x\<rfloor> = 1 / 2")
    case True
    then show ?thesis
      by (simp add: py_round_def Let_def)
  next
    case False
    with assms fl show ?thesis
      by (auto simp: py_round_def Let_def split: if_splits)
  qed
qed

lemma py_round_of_int [simp]: "py_round (of_int n) = n"
  by (simp add: py_round_def)

lemma py_round_lower: "of_int a \<le> x \<Longrightarrow> a \<le> py_round x"
proof -
  assume "of_int a \<le> x"
  then have "a \<le> \<lfloor>x\<rfloor>" by (simp add: le_floor_iff)
  with py_round_cases [of x] show ?thesis by auto
qed

lemma py_round_upper: "x \<le> of_int b \<Longrightarrow> py_round x \<le> b"
proof -
  assume xb: "x \<le> of_int b"
  show ?thesis
  proof (cases "x = of_int b")
    case True
    then show ?thesis by simp
  next
    case False
    with xb have "x < of_int b" by simp
    then have "\<lfloor>x\<rfloor> < b" by (simp add: floor_less_iff)
    with py_round_cases [of x] show ?thesis by auto
  qed
qed

lemma total_minutes_bounds: "0 \<le> total_minutes dt \<and> total_minutes dt < 60"
proof -
  have m: "0 \<le> minute dt \<and> minute dt \<le> 59"
    unfolding minute_def by simp
  have s: "0 \<le> second dt \<and> second dt \<le> 59"
    unfolding second_def by simp
  have u: "0 \<le> microsecond dt \<and> microsecond dt \<le> 999999"
    unfolding microsecond_def by simp
  have m': "(0::rat) \<le> of_int (minute dt) \<and> (of_int (minute dt) :: rat) \<le> of_int 59"
    using m by (simp del: of_int_numeral)
  have s': "(0::rat) \<le> of_int (second dt) \<and> (of_int (second dt) :: rat) \<le> of_int 59"
    using s by (simp del: of_int_numeral)
  have u': "(0::rat) \<le> of_int (microsecond dt) \<and> (of_int (microsecond dt) :: rat) \<le> of_int 999999"
    using u by (simp del: of_int_numeral)
  show ?thesis
    unfolding total_minutes_def using m' s' u' by simp
qed

lemma quarter_hours_range: "quarter_hours dt \<in> {0, 15, 30, 45, 60}"
proof -
  let ?x = "total_minutes dt / 15"
  have lo: "of_int 0 \<le> ?x" and hi: "?x \<le> of_int 4"
    using total_minutes_bounds [of dt] by simp_all
  have "0 \<le> py_round ?x"
    using lo by (rule py_round_lower)
  moreover have "py_round ?x \<le> 4"
    using hi by (rule py_round_upper)
  ultimately have "py_round ?x \<in> {0, 1, 2, 3, 4}" by auto
  then show ?thesis
    unfolding quarter_hours_def by auto
qed






section \<open>Facts about doubles\<close>

lemma floor_log2_lower:
  assumes "0 < x"
  shows "2 powi (floor_log2 x) \<le> x"
proof -
  obtain p q where pq: "quotient_of x = (p, q)" by (cases "quotient_of x")
  have q: "0 < q" using pq by (rule quotient_of_denom_pos)
  have x: "x = of_int p / of_int q" using pq by (rule quotient_of_div)
  have p: "0 < p"
    using assms q unfolding x by (simp add: zero_less_divide_iff)
  define a where "a = nat (bitlen p - 1)"
  define b where "b = nat (bitlen q)"
  have bp: "bitlen p - 1 = int a"
    using p unfolding a_def by (simp add: bitlen_alt_def)
  have bq: "bitlen q = int b"
    unfolding b_def by (simp add: bitlen_nonneg)
  have pa: "(2 :: rat) ^ a \<le> of_int p"
  proof -
    have "2 ^ a \<le> p" using bitlen_bounds [OF p] unfolding a_def by simp
    then have "(of_int (2 ^ a) :: rat) \<le> of_int p" by (simp only: of_int_le_iff)
    then show ?thesis by simp
  qed
  have qb: "(of_int q :: rat) \<le> 2 ^ b"
  proof -
    have "q \<le> 2 ^ b" using bitlen_bounds [OF q] unfolding b_def by simp
    then have "(of_int q :: rat) \<le> of_int (2 ^ b)" by (simp only: of_int_le_iff)
    then show ?thesis by simp
  qed
  have low: "2 powi (bitlen p - bitlen q - 1) \<le> x"
  proof -
    have "bitlen p - bitlen q - 1 = int a - int b" using bp bq by simp
    then have "(2 :: rat) powi (bitlen p - bitlen q - 1) = 2 ^ a / 2 ^ b"
      by (simp add: power_int_diff)
    also have "\<dots> \<le> of_int p / of_int q"
    proof (rule frac_le [OF _ pa _ qb])
      show "(0::rat) \<le> of_int p" using p by simp
      show "(0::rat) < of_int q" using q by simp
    qed
    finally show ?thesis unfolding x .
  qed
  show ?thesis
    using low by (simp add: floor_log2_def pq Let_def)
qed

lemma to_double_error: "\<bar>to_double x - x\<bar> \<le> \<bar>x\<bar> / 9007199254740992"
proof (cases "x = 0")
  case True
  then show ?thesis by (simp add: to_double_def)
next
  case False
  define e where "e = floor_log2 \<bar>x\<bar>"
  define u :: rat where "u = 2 powi (e - 52)"
  have u_pos: "0 < u" unfolding u_def by (simp add: zero_less_power_int)
  have td: "to_double x = of_int (py_round (x / u)) * u"
    using False by (simp add: to_double_def Let_def e_def u_def)
  have "\<bar>of_int (py_round (x / u)) * u - x\<bar> = \<bar>of_int (py_round (x / u)) - x / u\<bar> * u"
  proof -
    have "of_int (py_round (x / u)) * u - x = (of_int (py_round (x / u)) - x / u) * u"
      using u_pos by (simp add: field_simps)
    then show ?thesis using u_pos by (simp add: abs_mult)
  qed
  also have "\<dots> \<le> (1 / 2) * u"
    using py_round_nearest [of "x / u"] u_pos by (intro mult_right_mono) simp_all
  finally have half: "\<bar>to_double x - x\<bar> \<le> u / 2" unfolding td by simp
  have "u = 2 powi e / 2 powi 52" unfolding u_def by (simp add: power_int_diff)
  then have u_eq: "u = 2 powi e / 4503599627370496" by simp
  have "2 powi e \<le> \<bar>x\<bar>"
    unfolding e_def using False by (intro floor_log2_lower) simp
  then have "u / 2 \<le> \<bar>x\<bar> / 9007199254740992"
    unfolding u_eq by simp
  with half show ?thesis by linarith
qed

lemma total_hours_error:
  "\<bar>total_hours td - of_int td / 3600000000\<bar> \<le> \<bar>of_int td\<bar> / 3600000000 / 2251799813685248"
proof -
  define t :: rat where "t = of_int td / 1000000"
  define s where "s = to_double t"
  define h where "h = to_double (s / 3600)"
  have s: "\<bar>s - t\<bar> \<le> \<bar>t\<bar> / 9007199254740992"
    unfolding s_def by (rule to_double_error)
  have "\<bar>h - s / 3600\<bar> \<le> \<bar>s / 3600\<bar> / 9007199254740992"
    unfolding h_def by (rule to_double_error)
  then have h: "\<bar>h - s / 3600\<bar> \<le> \<bar>s\<bar> / 32425917317067571200"
    by simp
  have s2: "\<bar>s\<bar> \<le> 2 * \<bar>t\<bar>"
    using s by linarith
  have "h - t / 3600 = (h - s / 3600) + (s - t) / 3600"
    by (simp add: diff_divide_distrib)
  then have "\<bar>h - t / 3600\<bar> \<le> \<bar>h - s / 3600\<bar> + \<bar>(s - t) / 3600\<bar>"
    by (simp only: abs_triangle_ineq)
  then have "\<bar>h - t / 3600\<bar> \<le> \<bar>h - s / 3600\<bar> + \<bar>s - t\<bar> / 3600"
    by simp
  also have "\<dots> \<le> \<bar>s\<bar> / 32425917317067571200 + \<bar>t\<bar> / 9007199254740992 / 3600"
    using h s by (simp add: divide_right_mono)
  also have "\<dots> \<le> \<bar>t\<bar> / 3600 / 2251799813685248"
    using s2 by simp
  finally have "\<bar>h - t / 3600\<bar> \<le> \<bar>t\<bar> / 3600 / 2251799813685248" .
  moreover have "h = total_hours td"
    by (simp add: h_def s_def t_def total_hours_def)
  moreover have "t / 3600 = of_int td / 3600000000" "\<bar>t\<bar> / 3600 = \<bar>of_int td\<bar> / 3600000000"
    by (simp_all add: t_def)
  ultimately show ?thesis by simp
qed

lemma round2_two_decimals:
  "\<exists>k. round2 x = to_double (of_int k / 100)
       \<and> \<bar>of_int k / 100 - x\<bar> \<le> 1 / 200
       \<and> (\<bar>of_int k / 100 - x\<bar> = 1 / 200 \<longrightarrow> even k)
       \<and> \<bar>round2 x - of_int k / 100\<bar> \<le> \<bar>of_int k / 100\<bar> / 9007199254740992"
proof -
  define k where "k = py_round (x * 100)"
  have d: "\<bar>of_int k / 100 - x\<bar> = \<bar>of_int k - x * 100\<bar> / 100"
  proof -
    have "of_int k / 100 - x = (of_int k - x * 100) / 100"
      by (simp add: diff_divide_distrib)
    then have "\<bar>of_int k / 100 - x\<bar> = \<bar>(of_int k - x * 100) / 100\<bar>"
      by (simp only:)
    also have "\<dots> = \<bar>of_int k - x * 100\<bar> / \<bar>100\<bar>"
      by (rule abs_divide)
    finally show ?thesis by simp
  qed
  have a: "round2 x = to_double (of_int k / 100)"
    by (simp add: round2_def k_def)
  have "\<bar>of_int k - x * 100\<bar> \<le> 1 / 2"
    unfolding k_def by (rule py_round_nearest)
  then have b: "\<bar>of_int k / 100 - x\<bar> \<le> 1 / 200"
    unfolding d by simp
  have c: "\<bar>of_int k / 100 - x\<bar> = 1 / 200 \<longrightarrow> even k"
  proof
    assume "\<bar>of_int k / 100 - x\<bar> = 1 / 200"
    then have "\<bar>of_int k - x * 100\<bar> = 1 / 2" unfolding d by simp
    then show "even k" unfolding k_def by (rule py_round_tie_even)
  qed
  have e: "\<bar>round2 x - of_int k / 100\<bar> \<le> \<bar>of_int k / 100\<bar> / 9007199254740992"
    unfolding a by (rule to_double_error)
  from a b c e show ?thesis by blast
qed

section \<open>Facts about the merger\<close>

lemma combine_date_time [simp]: "combine (date_of dt) (time_of dt) = dt"
  by (simp add: combine_def date_of_def time_of_def)

lemma session_start_make [simp]: "session_start (make_session s e) = s"
  by (simp add: session_start_def make_session_def)

lemma session_end_make [simp]: "session_end (make_session s e) = e"
  by (simp add: session_end_def make_session_def)

lemma hours_make: "hours (make_session s e) = round2 (total_hours (e - s))"
  by (simp add: make_session_def)

lemma merge_loop_acc: "merge_loop c rest acc = acc @ merge_loop c rest []"
proof (induction rest arbitrary: c acc)
  case Nil
  show ?case by simp
next
  case (Cons n rest)
  show ?case
  proof (cases "start_dt n \<le> end_dt c + 900000000")
    case True
    then show ?thesis
      using Cons.IH [of "c\<lparr>end_dt := max (end_dt c) (end_dt n)\<rparr>" acc] by simp
  next
    case False
    then show ?thesis
      using Cons.IH [of n "acc @ [c]"] Cons.IH [of n "[c]"] by simp
  qed
qed

lemma merge_loop_starts:
  "start_dt ` set (merge_loop c rest []) \<subseteq> start_dt ` set (c # rest)"
proof (induction rest arbitrary: c)
  case Nil
  show ?case by simp
next
  case (Cons n rest)
  show ?case
  proof (cases "start_dt n \<le> end_dt c + 900000000")
    case True
    then show ?thesis
      using Cons.IH [of "c\<lparr>end_dt := max (end_dt c) (end_dt n)\<rparr>"] by auto
  next
    case False
    then have "merge_loop c (n # rest) [] = c # merge_loop n rest []"
      using merge_loop_acc [of n rest "[c]"] by simp
    then show ?thesis
      using Cons.IH [of n] by auto
  qed
qed

lemma merge_loop_separated:
  assumes "sorted (map start_dt (c # rest))"
  shows "sorted_wrt separated (merge_loop c rest [])"
  using assms
proof (induction rest arbitrary: c)
  case Nil
  show ?case by simp
next
  case (Cons n rest)
  show ?case
  proof (cases "start_dt n \<le> end_dt c + 900000000")
    case True
    have "sorted (map start_dt (c\<lparr>end_dt := max (end_dt c) (end_dt n)\<rparr> # rest))"
      using Cons.prems by simp
    then show ?thesis
      using True Cons.IH [of "c\<lparr>end_dt := max (end_dt c) (end_dt n)\<rparr>"] by simp
  next
    case False
    have eq: "merge_loop c (n # rest) [] = c # merge_loop n rest []"
      using False merge_loop_acc [of n rest "[c]"] by simp
    have srt: "sorted (map start_dt (n # rest))"
      using Cons.prems by simp
    have "separated c m" if "m \<in> set (merge_loop n rest [])" for m
    proof -
      have "start_dt m \<in> start_dt ` set (n # rest)"
        using that merge_loop_starts [of n rest] by blast
      then have "start_dt n \<le> start_dt m"
        using srt by auto
      with False show ?thesis
        by (simp add: separated_def)
    qed
    then show ?thesis
      using eq Cons.IH [OF srt] by simp
  qed
qed

lemma merge_loop_sorted:
  assumes "sorted (map start_dt (c # rest))"
  shows "sorted (map start_dt (merge_loop c rest []))"
  using assms
proof (induction rest arbitrary: c)
  case Nil
  show ?case by simp
next
  case (Cons n rest)
  show ?case
  proof (cases "start_dt n \<le> end_dt c + 900000000")
    case True
    have "sorted (map start_dt (c\<lparr>end_dt := max (end_dt c) (end_dt n)\<rparr> # rest))"
      using Cons.prems by simp
    then show ?thesis
      using True Cons.IH [of "c\<lparr>end_dt := max (end_dt c) (end_dt n)\<rparr>"] by simp
  next
    case False
    have eq: "merge_loop c (n # rest) [] = c # merge_loop n rest []"
      using False merge_loop_acc [of n rest "[c]"] by simp
    have srt: "sorted (map start_dt (n # rest))"
      using Cons.prems by simp
    have "start_dt c \<le> start_dt m" if "m \<in> set (merge_loop n rest [])" for m
    proof -
      have "start_dt m \<in> start_dt ` set (n # rest)"
        using that merge_loop_starts [of n rest] by blast
      then show ?thesis
        using Cons.prems by auto
    qed
    then show ?thesis
      using eq Cons.IH [OF srt] by auto
  qed
qed

lemma merge_loop_covers:
  assumes "sorted (map start_dt (c # rest))" and "s \<in> set (c # rest)"
  shows "\<exists>m \<in> set (merge_loop c rest []). start_dt m \<le> start_dt s \<and> end_dt s \<le> end_dt m"
  using assms
proof (induction rest arbitrary: c s)
  case Nil
  then show ?case by simp
next
  case (Cons n rest)
  show ?case
  proof (cases "start_dt n \<le> end_dt c + 900000000")
    case True
    let ?c = "c\<lparr>end_dt := max (end_dt c) (end_dt n)\<rparr>"
    have srt: "sorted (map start_dt (?c # rest))"
      using Cons.prems(1) by simp
    have eq: "merge_loop c (n # rest) [] = merge_loop ?c rest []"
      using True by simp
    obtain m where m: "m \<in> set (merge_loop ?c rest [])"
      "start_dt m \<le> start_dt ?c" "end_dt ?c \<le> end_dt m"
      using Cons.IH [OF srt, of ?c] by auto
    show ?thesis
    proof (cases "s = c \<or> s = n")
      case True
      have "start_dt c \<le> start_dt n" using Cons.prems(1) by simp
      with True m have "start_dt m \<le> start_dt s \<and> end_dt s \<le> end_dt m"
        by auto
      with m(1) eq show ?thesis by auto
    next
      case False
      then have "s \<in> set (?c # rest)" using Cons.prems(2) by simp
      from Cons.IH [OF srt this] eq show ?thesis by simp
    qed
  next
    case False
    have eq: "merge_loop c (n # rest) [] = c # merge_loop n rest []"
      using False merge_loop_acc [of n rest "[c]"] by simp
    have srt: "sorted (map start_dt (n # rest))"
      using Cons.prems(1) by simp
    show ?thesis
    proof (cases "s = c")
      case True
      then show ?thesis using eq by simp
    next
      case False
      then have "s \<in> set (n # rest)" using Cons.prems(2) by simp
      from Cons.IH [OF srt this] eq show ?thesis by auto
    qed
  qed
qed

lemma merge_loop_no_merge:
  assumes "sorted_wrt separated (c # rest)"
  shows "merge_loop c rest acc = acc @ c # rest"
  using assms
proof (induction rest arbitrary: c acc)
  case Nil
  show ?case by simp
next
  case (Cons n rest)
  have "separated c n" using Cons.prems by simp
  then have "\<not> start_dt n \<le> end_dt c + 900000000"
    by (simp add: separated_def)
  moreover have "sorted_wrt separated (n # rest)" using Cons.prems by simp
  ultimately show ?case
    using Cons.IH [of n "acc @ [c]"] by simp
qed


lemma merge_loop_nonempty: "merge_loop c rest acc \<noteq> []"
  by (induction rest arbitrary: c acc) auto

lemma merge_shape:
  assumes "sessions \<noteq> []"
  obtains c rest where
    "sort_key start_dt (map to_interval sessions) = c # rest"
    "sorted (map start_dt (c # rest))"
    "merge_overlapping_sessions sessions = map finalize (merge_loop c rest [])"
proof -
  let ?xs = "sort_key start_dt (map to_interval sessions)"
  have "length ?xs = length sessions" by simp
  with assms have "?xs \<noteq> []" by (metis length_0_conv)
  then obtain c rest where cr: "?xs = c # rest" by (cases ?xs) auto
  have "sorted (map start_dt ?xs)" by (rule sorted_sort_key)
  with cr have srt: "sorted (map start_dt (c # rest))" by simp
  have "merge_overlapping_sessions sessions = map finalize (merge_loop c rest [])"
    using assms cr by (simp add: merge_overlapping_sessions_def)
  with cr srt show thesis by (rule that)
qed

lemma finalize_fields [simp]:
  "session_start (finalize i) = start_dt i" "session_end (finalize i) = end_dt i"
  by (simp_all add: finalize_def)

text \<open>
  C4. For every non-empty session list the merger's output is sorted by start, no two
  output sessions overlap, and every later output session starts strictly more than 15
  minutes after an earlier one ends. The hours of every output session are recomputed
  from its own ends as \<open>(end - start)\<close> in hours rounded to two decimals: they are the
  double nearest to a number of hundredths \<open>k / 100\<close>, which is a nearest one to the
  float quotient, the even one on a tie, and the float quotient is within a relative
  error of \<open>2 ^ -51\<close> of the exact \<open>(end - start) / 3600\<close>.
\<close>

theorem merge_output_invariant:
  assumes "sessions \<noteq> []"
  defines "out \<equiv> merge_overlapping_sessions sessions"
  shows "sorted (map session_start out)
    \<and> sorted_wrt (\<lambda>a b. \<not> overlaps a b \<and> session_end a + 900000000 < session_start b) out
    \<and> (\<forall>m \<in> set out. hours m = round2 (total_hours (session_end m - session_start m)))
    \<and> (\<forall>m \<in> set out. \<exists>k.
          hours m = to_double (of_int k / 100)
          \<and> \<bar>of_int k / 100 - total_hours (session_end m - session_start m)\<bar> \<le> 1 / 200
          \<and> (\<bar>of_int k / 100 - total_hours (session_end m - session_start m)\<bar> = 1 / 200
                \<longrightarrow> even k)
          \<and> \<bar>hours m - of_int k / 100\<bar> \<le> \<bar>of_int k / 100\<bar> / 9007199254740992
          \<and> \<bar>total_hours (session_end m - session_start m)
                - of_int (session_end m - session_start m) / 3600000000\<bar>
              \<le> \<bar>of_int (session_end m - session_start m)\<bar> / 3600000000 / 2251799813685248)"
proof -
  from assms(1) obtain c rest where
    srt: "sorted (map start_dt (c # rest))" and
    out: "out = map finalize (merge_loop c rest [])"
    unfolding out_def by (rule merge_shape)
  let ?M = "merge_loop c rest []"
  have "map session_start out = map start_dt ?M"
    by (simp add: out)
  then have a: "sorted (map session_start out)"
    using merge_loop_sorted [OF srt] by simp
  have "sorted_wrt separated ?M"
    using srt by (rule merge_loop_separated)
  then have "sorted_wrt (\<lambda>a b. \<not> overlaps (finalize a) (finalize b)
      \<and> session_end (finalize a) + 900000000 < session_start (finalize b)) ?M"
    by (rule sorted_wrt_mono_rel [rotated]) (auto simp: separated_def overlaps_def)
  then have b: "sorted_wrt (\<lambda>a b. \<not> overlaps a b \<and> session_end a + 900000000 < session_start b) out"
    by (simp add: out sorted_wrt_map)
  have c: "\<forall>m \<in> set out. hours m = round2 (total_hours (session_end m - session_start m))"
    by (auto simp: out finalize_def hours_make)
  have d: "\<forall>m \<in> set out. \<exists>k.
          hours m = to_double (of_int k / 100)
          \<and> \<bar>of_int k / 100 - total_hours (session_end m - session_start m)\<bar> \<le> 1 / 200
          \<and> (\<bar>of_int k / 100 - total_hours (session_end m - session_start m)\<bar> = 1 / 200
                \<longrightarrow> even k)
          \<and> \<bar>hours m - of_int k / 100\<bar> \<le> \<bar>of_int k / 100\<bar> / 9007199254740992
          \<and> \<bar>total_hours (session_end m - session_start m)
                - of_int (session_end m - session_start m) / 3600000000\<bar>
              \<le> \<bar>of_int (session_end m - session_start m)\<bar> / 3600000000 / 2251799813685248"
  proof
    fix m assume "m \<in> set out"
    with c have h: "hours m = round2 (total_hours (session_end m - session_start m))"
      by blast
    from round2_two_decimals [of "total_hours (session_end m - session_start m)"]
    obtain k where
      "round2 (total_hours (session_end m - session_start m)) = to_double (of_int k / 100)"
      "\<bar>of_int k / 100 - total_hours (session_end m - session_start m)\<bar> \<le> 1 / 200"
      "\<bar>of_int k / 100 - total_hours (session_end m - session_start m)\<bar> = 1 / 200
         \<longrightarrow> even k"
      "\<bar>round2 (total_hours (session_end m - session_start m)) - of_int k / 100\<bar>
         \<le> \<bar>of_int k / 100\<bar> / 9007199254740992"
      by blast
    with h total_hours_error [of "session_end m - session_start m"]
    show "\<exists>k.
          hours m = to_double (of_int k / 100)
          \<and> \<bar>of_int k / 100 - total_hours (session_end m - session_start m)\<bar> \<le> 1 / 200
          \<and> (\<bar>of_int k / 100 - total_hours (session_end m - session_start m)\<bar> = 1 / 200
                \<longrightarrow> even k)
          \<and> \<bar>hours m - of_int k / 100\<bar> \<le> \<bar>of_int k / 100\<bar> / 9007199254740992
          \<and> \<bar>total_hours (session_end m - session_start m)
                - of_int (session_end m - session_start m) / 3600000000\<bar>
              \<le> \<bar>of_int (session_end m - session_start m)\<bar> / 3600000000 / 2251799813685248"
      by metis
  qed
  from a b c d show ?thesis by blast
qed

text \<open>
  The theorem on three sessions given out of order: the two morning sessions, ten minutes
  apart, become one of an hour, and the afternoon one stays. On sessions of 18, 54 and 90
  seconds, whose exact hours 0.005, 0.015 and 0.025 lie midway between hundredths, the
  recorded hours are the doubles 0.01, 0.01 and 0.03, as the float quotients fall above,
  below and above the midpoint.
\<close>

theorem merge_output_invariant_witness:
  "example_sessions \<noteq> []
   \<and> merge_overlapping_sessions example_sessions =
       [make_session (clock 0 9 0) (clock 0 10 0), make_session (clock 0 13 0) (clock 0 13 15)]
   \<and> sorted (map session_start (merge_overlapping_sessions example_sessions))
   \<and> sorted_wrt (\<lambda>a b. \<not> overlaps a b \<and> session_end a + 900000000 < session_start b)
        (merge_overlapping_sessions example_sessions)
   \<and> hours (hd (merge_overlapping_sessions example_sessions)) = 1
   \<and> map hours (merge_overlapping_sessions short_sessions) =
       [to_double (1 / 100), to_double (1 / 100), to_double (3 / 100)]"
proof -
  have ne: "example_sessions \<noteq> []"
    by (simp add: example_sessions_def)
  have ev: "merge_overlapping_sessions example_sessions =
      [make_session (clock 0 9 0) (clock 0 10 0), make_session (clock 0 13 0) (clock 0 13 15)]"
    by code_simp
  have h: "hours (hd (merge_overlapping_sessions example_sessions)) = 1"
    by code_simp
  have s: "map hours (merge_overlapping_sessions short_sessions) =
       [to_double (1 / 100), to_double (1 / 100), to_double (3 / 100)]"
    by code_simp
  from merge_output_invariant [OF ne] ne ev h s show ?thesis
    by blast
qed

text \<open>
  C5. The merger is idempotent: applied to its own output, it returns that output
  unchanged.
\<close>

theorem merge_idempotent:
  "merge_overlapping_sessions (merge_overlapping_sessions sessions) = merge_overlapping_sessions sessions"
proof (cases "sessions = []")
  case True
  then show ?thesis by (simp add: merge_overlapping_sessions_def)
next
  case False
  then obtain c rest where
    srt: "sorted (map start_dt (c # rest))" and
    out: "merge_overlapping_sessions sessions = map finalize (merge_loop c rest [])"
    by (rule merge_shape)
  let ?M = "merge_loop c rest []"
  let ?g = "\<lambda>m. to_interval (finalize m)"
  have g_start: "start_dt (?g m) = start_dt m" and g_end: "end_dt (?g m) = end_dt m" for m
    by (simp_all add: to_interval_def)
  have ne: "map finalize ?M \<noteq> []"
    using merge_loop_nonempty [of c rest "[]"] by simp
  have "map start_dt (map ?g ?M) = map start_dt ?M"
    by (simp add: g_start comp_def)
  then have "sorted (map start_dt (map ?g ?M))"
    using merge_loop_sorted [OF srt] by (simp only:)
  then have sk: "sort_key start_dt (map ?g ?M) = map ?g ?M"
    by (rule sort_key_id_if_sorted)
  have "sorted_wrt separated ?M"
    using srt by (rule merge_loop_separated)
  then have "sorted_wrt (\<lambda>a b. separated (?g a) (?g b)) ?M"
    by (rule sorted_wrt_mono_rel [rotated]) (simp add: separated_def g_start g_end)
  then have sep: "sorted_wrt separated (map ?g ?M)"
    by (simp add: sorted_wrt_map)
  obtain c' rest' where cr': "map ?g ?M = c' # rest'"
    using ne by (cases "map ?g ?M") auto
  have loop: "merge_loop c' rest' [] = map ?g ?M"
    using merge_loop_no_merge [of c' rest' "[]"] sep cr' by simp
  have fin: "finalize (?g m) = finalize m" for m
    by (simp add: finalize_def to_interval_def)
  have "merge_overlapping_sessions (map finalize ?M) = map finalize (map ?g ?M)"
    using ne sk cr' loop
    by (simp add: merge_overlapping_sessions_def comp_def)
  also have "\<dots> = map finalize ?M"
    by (simp add: fin)
  finally show ?thesis
    by (simp add: out)
qed

text \<open>
  C9. Applied to the empty session list, the merger returns the empty list.
\<close>

theorem merge_empty: "merge_overlapping_sessions [] = []"
  by (simp add: merge_overlapping_sessions_def)

text \<open>
  C10. The merger loses no covered time: for every non-empty session list, every input
  session lies inside some output session, which starts no later and ends no earlier.
\<close>

theorem merge_covers_input:
  assumes "sessions \<noteq> []" and "s \<in> set sessions"
  shows "\<exists>m \<in> set (merge_overlapping_sessions sessions).
           session_start m \<le> session_start s \<and> session_end s \<le> session_end m"
proof -
  from assms(1) obtain c rest where
    cr: "sort_key start_dt (map to_interval sessions) = c # rest" and
    srt: "sorted (map start_dt (c # rest))" and
    out: "merge_overlapping_sessions sessions = map finalize (merge_loop c rest [])"
    by (rule merge_shape)
  have "to_interval s \<in> set (sort_key start_dt (map to_interval sessions))"
    using assms(2) by simp
  then have "to_interval s \<in> set (c # rest)"
    unfolding cr .
  from merge_loop_covers [OF srt this] obtain m where
    m: "m \<in> set (merge_loop c rest [])"
       "start_dt m \<le> start_dt (to_interval s)" "end_dt (to_interval s) \<le> end_dt m"
    by blast
  have "finalize m \<in> set (merge_overlapping_sessions sessions)"
    using m(1) out by simp
  moreover have "session_start (finalize m) \<le> session_start s \<and> session_end s \<le> session_end (finalize m)"
    using m(2,3) by (simp add: to_interval_def)
  ultimately show ?thesis by blast
qed

text \<open>
  The theorem at the 09:40-10:00 session of the example: the output session that covers
  it is the merged 09:00-10:00 one.
\<close>

theorem merge_covers_input_witness:
  "example_sessions \<noteq> []
   \<and> make_session (clock 0 9 40) (clock 0 10 0) \<in> set example_sessions
   \<and> (\<exists>m \<in> set (merge_overlapping_sessions example_sessions).
         session_start m \<le> clock 0 9 40 \<and> clock 0 10 0 \<le> session_end m)"
proof -
  have ne: "example_sessions \<noteq> []"
    by (simp add: example_sessions_def)
  have el: "make_session (clock 0 9 40) (clock 0 10 0) \<in> set example_sessions"
    by (simp add: example_sessions_def)
  from merge_covers_input [OF ne el] ne el show ?thesis
    by simp
qed

section \<open>Facts about the session builder\<close>

lemma close_session_floor:
  "fst (close_session s e) = session_with_floor (1 / 4) (s, e)"
  by (simp add: close_session_def session_with_floor_def floor_end_def
      ensure_minimum_session_duration_def Let_def)

lemma session_loop_segments:
  "(case session_loop cfg prev ts css dst ss of
      (css', dst', ss') \<Rightarrow>
        ss' @ [fst (close_session css'
                 (css' + timedelta_hours ((dst' + session_end_buffer cfg) * time_multiplier cfg)))])
   = ss @ map (\<lambda>seg. fst (close_session (fst seg) (snd seg))) (segments_loop cfg prev ts css dst)"
proof (induction ts arbitrary: prev css dst ss)
  case Nil
  show ?case by simp
next
  case (Cons t ts)
  show ?case
  proof (cases "total_hours (t - prev) \<le> max_session_gap_hours cfg")
    case True
    then show ?thesis
      using Cons.IH [of t css "dst + total_hours (t - prev)" ss] by (simp add: Let_def)
  next
    case False
    then show ?thesis
      using Cons.IH [of t t "min_activity_hours cfg"
          "ss @ [fst (close_session css
             (css + timedelta_hours ((dst + min_activity_hours cfg) * time_multiplier cfg)))]"]
      by (simp add: Let_def)
  qed
qed

lemma process_day_sessions:
  "snd (process_day cfg d ts (dh, ss)) =
     ss @ map (session_with_floor (1 / 4)) (day_segments cfg ts)"
proof (cases ts)
  case Nil
  then show ?thesis by simp
next
  case (Cons t0 rest)
  show ?thesis
  proof (cases rest)
    case Nil
    with Cons show ?thesis
      by (simp add: Let_def split: prod.splits) (metis close_session_floor fst_conv)
  next
    case (Cons t1 rest')
    obtain css' dst' ss' where l: "session_loop cfg t0 rest t0 0 ss = (css', dst', ss')"
      by (cases "session_loop cfg t0 rest t0 0 ss") auto
    have "ss' @ [fst (close_session css'
                 (css' + timedelta_hours ((dst' + session_end_buffer cfg) * time_multiplier cfg)))]
        = ss @ map (\<lambda>seg. fst (close_session (fst seg) (snd seg))) (segments_loop cfg t0 rest t0 0)"
      using session_loop_segments [of cfg t0 rest t0 0 ss] l by simp
    then show ?thesis
      using \<open>ts = t0 # rest\<close> Cons l
      by (simp add: Let_def close_session_floor)
  qed
qed

lemma fold_process_day_sessions:
  "snd (fold (\<lambda>(date, timestamps). process_day cfg date timestamps) gs (dh, ss)) =
     ss @ concat (map (\<lambda>(date, timestamps). map (session_with_floor (1 / 4)) (day_segments cfg timestamps)) gs)"
proof (induction gs arbitrary: dh ss)
  case Nil
  show ?case by simp
next
  case (Cons g gs)
  obtain d ts where g: "g = (d, ts)" by (cases g)
  obtain dh1 ss1 where p: "process_day cfg d ts (dh, ss) = (dh1, ss1)"
    by (cases "process_day cfg d ts (dh, ss)")
  have "ss1 = ss @ map (session_with_floor (1 / 4)) (day_segments cfg ts)"
    using process_day_sessions [of cfg d ts dh ss] p by simp
  then show ?case
    using Cons.IH [of dh1 ss1] g p by simp
qed

lemma build_sessions_eq:
  "snd (build_sessions cfg dts) =
     concat (map (\<lambda>(date, timestamps). map (session_with_floor (1 / 4)) (day_segments cfg timestamps))
       (day_groups dts))"
  by (simp add: build_sessions_def fold_process_day_sessions)

text \<open>
  C2, as the specification has it, would make the builder's sessions those closed with the
  configured \<open>min_activity_hours\<close> as the minimum. With \<open>min_activity_hours = 0.5\<close>,
  \<open>time_multiplier = 0.5\<close> and \<open>min_activities = 1\<close>, a project with one event, at 09:00,
  gives the rounded ends 09:00 and 09:15, a
  quarter of an hour apart and so below the configured half hour; the builder keeps the end
  at 09:15, where the configured minimum would move it to 09:30.
\<close>

theorem builder_floor_not_configured:
  "snd (build_sessions short_config [clock 0 9 0]) =
     [make_session (clock 0 9 0) (clock 0 9 15)]
   \<and> sessions_with_floor (min_activity_hours short_config) short_config [clock 0 9 0] =
     [make_session (clock 0 9 0) (clock 0 9 30)]
   \<and> snd (build_sessions short_config [clock 0 9 0]) \<noteq>
     sessions_with_floor (min_activity_hours short_config) short_config [clock 0 9 0]"
proof -
  have a: "snd (build_sessions short_config [clock 0 9 0]) =
     [make_session (clock 0 9 0) (clock 0 9 15)]"
    by code_simp
  have b: "sessions_with_floor (min_activity_hours short_config) short_config [clock 0 9 0] =
     [make_session (clock 0 9 0) (clock 0 9 30)]"
    by code_simp
  have c: "make_session (clock 0 9 0) (clock 0 9 15) \<noteq> make_session (clock 0 9 0) (clock 0 9 30)"
    by code_simp
  from a b c show ?thesis by simp
qed

text \<open>
  C2, amended. For every configuration, the sessions the builder appends for a project are
  those of its days' session starts and nominal ends closed with the fixed minimum of a
  quarter of an hour, the default of \<open>ensure_minimum_session_duration\<close>: when the
  quarter-rounded end is less than 0.25 hours after the quarter-rounded start, the end
  becomes the rounded start plus 0.25 hours, rounded to the quarter hour again, and
  otherwise the rounded end is kept. The configured \<open>min_activity_hours\<close> enters the
  nominal ends only.
\<close>

theorem builder_floor_fixed:
  "snd (build_sessions cfg dts) = sessions_with_floor (1 / 4) cfg dts"
  by (simp add: sessions_with_floor_def build_sessions_eq)

text \<open>
  The theorem at one event at 09:22:30 with the default configuration: start and nominal
  end, 09:37:30, both round to 09:30, and the end is moved to 09:45.
\<close>

theorem builder_floor_fixed_witness:
  "round_to_quarter_hour (clock 0 9 22 + 30000000) = clock 0 9 30
   \<and> round_to_quarter_hour (clock 0 9 37 + 30000000) = clock 0 9 30
   \<and> floor_end (1 / 4) (clock 0 9 30) (clock 0 9 30) = clock 0 9 45
   \<and> snd (build_sessions default_config [clock 0 9 22 + 30000000]) =
       [make_session (clock 0 9 30) (clock 0 9 45)]"
proof -
  have a: "round_to_quarter_hour (clock 0 9 22 + 30000000) = clock 0 9 30"
    by code_simp
  have b: "round_to_quarter_hour (clock 0 9 37 + 30000000) = clock 0 9 30"
    by code_simp
  have c: "floor_end (1 / 4) (clock 0 9 30) (clock 0 9 30) = clock 0 9 45"
    by code_simp
  have "sessions_with_floor (1 / 4) default_config [clock 0 9 22 + 30000000] =
       [make_session (clock 0 9 30) (clock 0 9 45)]"
    by code_simp
  then have "snd (build_sessions default_config [clock 0 9 22 + 30000000]) =
       [make_session (clock 0 9 30) (clock 0 9 45)]"
    using builder_floor_fixed [of default_config "[clock 0 9 22 + 30000000]"] by simp
  with a b c show ?thesis by blast
qed

subsection \<open>Daily totals of the builder\<close>

lemma date_of_round: "date_of t \<le> date_of (round_to_quarter_hour t)"
proof -
  let ?H = "3600000000 :: int" and ?D = "86400000000 :: int"
  have q: "0 \<le> quarter_hours t"
    using quarter_hours_range [of t] by auto
  have hour_floor: "t - t mod ?H \<le> round_to_quarter_hour t"
  proof (cases "quarter_hours t \<ge> 60")
    case True
    have "(t + ?H) mod ?H = t mod ?H" by simp
    then show ?thesis
      using True by (simp add: round_to_quarter_hour_def replace_minute_def)
  next
    case False
    then show ?thesis
      using q by (simp add: round_to_quarter_hour_def replace_minute_def)
  qed
  have "(t mod ?D) mod ?H = t mod ?H"
    by (rule mod_mod_cancel) simp
  moreover have "(t mod ?D) mod ?H \<le> t mod ?D"
    by (rule zmod_le_nonneg_dividend) simp
  ultimately have "t - t mod ?D \<le> t - t mod ?H" by simp
  with hour_floor have "date_of t * ?D \<le> round_to_quarter_hour t"
    by (simp add: date_of_def minus_mod_eq_div_mult)
  then have "(date_of t * ?D) div ?D \<le> round_to_quarter_hour t div ?D"
    by (rule zdiv_mono1) simp
  then show ?thesis
    by (simp add: date_of_def)
qed

lemma start_date_session_with_floor:
  "start_date (session_with_floor m seg) = date_of (round_to_quarter_hour (fst seg))"
  by (simp add: session_with_floor_def make_session_def Let_def)

lemma segments_loop_starts:
  "fst ` set (segments_loop cfg prev ts css dst) \<subseteq> insert css (set ts)"
proof (induction ts arbitrary: prev css dst)
  case Nil
  show ?case by simp
next
  case (Cons t ts)
  show ?case
  proof (cases "total_hours (t - prev) \<le> max_session_gap_hours cfg")
    case True
    then show ?thesis
      using Cons.IH [of t css "dst + total_hours (t - prev)"] by (auto simp: Let_def)
  next
    case False
    then show ?thesis
      using Cons.IH [of t t "min_activity_hours cfg"] by (auto simp: Let_def)
  qed
qed

lemma day_cases:
  obtains "ts = []" | t where "ts = [t]" | t0 t1 rest where "ts = t0 # t1 # rest"
  by (cases ts rule: remdups_adj.cases) auto

lemma day_segments_starts: "fst ` set (day_segments cfg ts) \<subseteq> set ts"
proof (cases rule: day_cases [of ts])
  case 1
  then show ?thesis by simp
next
  case (2 t)
  then show ?thesis by simp
next
  case (3 t0 t1 rest)
  then show ?thesis
    using segments_loop_starts [of cfg t0 "t1 # rest" t0 0] by auto
qed

lemma process_day_new_sessions:
  assumes "\<forall>t \<in> set ts. date_of t = d"
  shows "\<exists>new. snd (process_day cfg d ts (dh, ss)) = ss @ new \<and> (\<forall>s \<in> set new. d \<le> start_date s)"
proof -
  let ?new = "map (session_with_floor (1 / 4)) (day_segments cfg ts)"
  have "d \<le> start_date s" if "s \<in> set ?new" for s
  proof -
    from that obtain seg where seg: "seg \<in> set (day_segments cfg ts)"
      and s: "s = session_with_floor (1 / 4) seg" by auto
    have "fst seg \<in> set ts"
      using seg day_segments_starts [of cfg ts] by auto
    then have "date_of (fst seg) = d" using assms by simp
    then show ?thesis
      using date_of_round [of "fst seg"] by (simp add: s start_date_session_with_floor)
  qed
  then show ?thesis
    using process_day_sessions [of cfg d ts dh ss] by blast
qed

lemma process_day_hours:
  assumes "2 \<le> length ts"
  shows "fst (process_day cfg d ts (dh, ss)) =
           dh(d \<mapsto> day_total (snd (process_day cfg d ts (dh, ss))) d)"
proof -
  from assms obtain t0 t1 rest where ts: "ts = t0 # t1 # rest"
    by (cases rule: day_cases [of ts]) auto
  show ?thesis
    unfolding ts by (simp add: Let_def day_total_def split: prod.splits)
qed

lemma process_day_other:
  assumes "d' \<noteq> d"
  shows "fst (process_day cfg d ts (dh, ss)) d' = dh d'"
proof (cases rule: day_cases [of ts])
  case 1
  then show ?thesis by simp
next
  case (2 t)
  then show ?thesis using assms by (simp add: Let_def split: prod.splits)
next
  case (3 t0 t1 rest)
  then show ?thesis using assms by (simp add: Let_def split: prod.splits)
qed

lemma day_total_append: "day_total (xs @ ys) d = day_total xs d + day_total ys d"
  by (simp add: day_total_def)

lemma day_total_later:
  assumes "\<forall>s \<in> set new. d < start_date s"
  shows "day_total new d = 0"
proof -
  have "filter (\<lambda>s. start_date s = d) new = []"
    using assms by (auto simp: filter_empty_conv)
  then show ?thesis by (simp add: day_total_def)
qed

lemma fold_days_later:
  assumes "\<forall>g \<in> set gs. d0 < fst g \<and> (\<forall>t \<in> set (snd g). date_of t = fst g)"
  shows "fst (fold (\<lambda>(date, timestamps). process_day cfg date timestamps) gs (dh, ss)) d0 = dh d0
    \<and> (\<exists>new. snd (fold (\<lambda>(date, timestamps). process_day cfg date timestamps) gs (dh, ss)) = ss @ new
          \<and> (\<forall>s \<in> set new. d0 < start_date s))"
  using assms
proof (induction gs arbitrary: dh ss)
  case Nil
  show ?case by simp
next
  case (Cons g gs)
  obtain d ts where g: "g = (d, ts)" by (cases g)
  obtain dh1 ss1 where p: "process_day cfg d ts (dh, ss) = (dh1, ss1)"
    by (cases "process_day cfg d ts (dh, ss)")
  have d: "d0 < d" and dts: "\<forall>t \<in> set ts. date_of t = d"
    using Cons.prems g by auto
  have dh1: "dh1 d0 = dh d0"
    using process_day_other [of d0 d cfg ts dh ss] d p by simp
  obtain new1 where new1: "ss1 = ss @ new1" "\<forall>s \<in> set new1. d \<le> start_date s"
    using process_day_new_sessions [OF dts, of cfg dh ss] p by auto
  have rest: "\<forall>g \<in> set gs. d0 < fst g \<and> (\<forall>t \<in> set (snd g). date_of t = fst g)"
    using Cons.prems by simp
  from Cons.IH [OF rest, of dh1 ss1] obtain new2 where
    h: "fst (fold (\<lambda>(date, timestamps). process_day cfg date timestamps) gs (dh1, ss1)) d0 = dh1 d0"
    and new2: "snd (fold (\<lambda>(date, timestamps). process_day cfg date timestamps) gs (dh1, ss1)) = ss1 @ new2"
      "\<forall>s \<in> set new2. d0 < start_date s"
    by blast
  have f: "fold (\<lambda>(date, timestamps). process_day cfg date timestamps) (g # gs) (dh, ss) =
      fold (\<lambda>(date, timestamps). process_day cfg date timestamps) gs (dh1, ss1)"
    using g p by simp
  have "\<forall>s \<in> set (new1 @ new2). d0 < start_date s"
    using new1(2) new2(2) d by auto
  moreover have "snd (fold (\<lambda>(date, timestamps). process_day cfg date timestamps) (g # gs) (dh, ss)) =
      ss @ (new1 @ new2)"
    using f new2(1) new1(1) by simp
  ultimately show ?case
    using f h dh1 by metis
qed

lemma fold_days_total:
  assumes "sorted_wrt (<) (map fst gs)"
    and "\<forall>g \<in> set gs. \<forall>t \<in> set (snd g). date_of t = fst g"
    and "(d, ts) \<in> set gs" and "2 \<le> length ts"
  shows "fst (fold (\<lambda>(date, timestamps). process_day cfg date timestamps) gs (dh, ss)) d =
     Some (day_total (snd (fold (\<lambda>(date, timestamps). process_day cfg date timestamps) gs (dh, ss))) d)"
  using assms
proof (induction gs arbitrary: dh ss)
  case Nil
  then show ?case by simp
next
  case (Cons g gs)
  obtain d1 ts1 where g: "g = (d1, ts1)" by (cases g)
  obtain dh1 ss1 where p: "process_day cfg d1 ts1 (dh, ss) = (dh1, ss1)"
    by (cases "process_day cfg d1 ts1 (dh, ss)")
  have f: "fold (\<lambda>(date, timestamps). process_day cfg date timestamps) (g # gs) (dh, ss) =
      fold (\<lambda>(date, timestamps). process_day cfg date timestamps) gs (dh1, ss1)"
    using g p by simp
  have srt: "sorted_wrt (<) (map fst gs)" and later: "\<forall>g' \<in> set gs. d1 < fst g'"
    using Cons.prems(1) g by auto
  have dates: "\<forall>g \<in> set gs. \<forall>t \<in> set (snd g). date_of t = fst g"
    using Cons.prems(2) by simp
  show ?case
  proof (cases "(d, ts) \<in> set gs")
    case True
    from Cons.IH [OF srt dates True Cons.prems(4), of dh1 ss1] f show ?thesis by simp
  next
    case False
    then have dg: "d = d1" "ts = ts1" using Cons.prems(3) g by auto
    have h1: "dh1 d1 = Some (day_total ss1 d1)"
      using process_day_hours [of ts1 cfg d1 dh ss] Cons.prems(4) dg p by simp
    have "\<forall>g \<in> set gs. d1 < fst g \<and> (\<forall>t \<in> set (snd g). date_of t = fst g)"
      using later dates by blast
    from fold_days_later [OF this, of cfg dh1 ss1] obtain new where
      k: "fst (fold (\<lambda>(date, timestamps). process_day cfg date timestamps) gs (dh1, ss1)) d1 = dh1 d1"
      and n: "snd (fold (\<lambda>(date, timestamps). process_day cfg date timestamps) gs (dh1, ss1)) = ss1 @ new"
        "\<forall>s \<in> set new. d1 < start_date s"
      by blast
    have "day_total (ss1 @ new) d1 = day_total ss1 d1"
      using day_total_later [OF n(2)] by (simp add: day_total_append)
    then show ?thesis
      using f k n(1) h1 dg by simp
  qed
qed

lemma day_groups_props:
  "sorted_wrt (<) (map fst (day_groups dts))"
  "\<forall>g \<in> set (day_groups dts). \<forall>t \<in> set (snd g). date_of t = fst g"
  "d \<in> date_of ` set dts \<Longrightarrow> (d, sort (filter (\<lambda>t. date_of t = d) dts)) \<in> set (day_groups dts)"
proof -
  have "map fst (day_groups dts) = sort (remdups (map date_of dts))"
    by (simp add: day_groups_def comp_def)
  moreover have "sorted_wrt (<) (sort (remdups (map date_of dts)))"
    by (simp add: strict_sorted_iff)
  ultimately show "sorted_wrt (<) (map fst (day_groups dts))" by simp
  show "\<forall>g \<in> set (day_groups dts). \<forall>t \<in> set (snd g). date_of t = fst g"
    by (auto simp: day_groups_def)
  show "d \<in> date_of ` set dts \<Longrightarrow> (d, sort (filter (\<lambda>t. date_of t = d) dts)) \<in> set (day_groups dts)"
    by (auto simp: day_groups_def)
qed

lemma build_sessions_day_total:
  assumes "2 \<le> length (filter (\<lambda>t. date_of t = d) dts)"
  shows "fst (build_sessions cfg dts) d = Some (day_total (snd (build_sessions cfg dts)) d)"
proof -
  let ?ts = "sort (filter (\<lambda>t. date_of t = d) dts)"
  have "filter (\<lambda>t. date_of t = d) dts \<noteq> []"
    using assms by auto
  then have "d \<in> date_of ` set dts"
    by (auto simp: filter_empty_conv)
  then have m: "(d, ?ts) \<in> set (day_groups dts)"
    by (rule day_groups_props(3))
  have l: "2 \<le> length ?ts"
    using assms by simp
  show ?thesis
    unfolding build_sessions_def
    by (rule fold_days_total [OF day_groups_props(1) day_groups_props(2) m l])
qed

section \<open>Facts about the classifier\<close>

lemma contains_iff:
  "contains sep s \<longleftrightarrow> (\<exists>i \<le> length s. take (length sep) (drop i s) = sep)"
proof (induction s)
  case Nil
  show ?case by auto
next
  case (Cons c s)
  have "(\<exists>i \<le> length (c # s). take (length sep) (drop i (c # s)) = sep) \<longleftrightarrow>
        take (length sep) (c # s) = sep \<or> (\<exists>j \<le> length s. take (length sep) (drop j s) = sep)"
  proof
    assume "\<exists>i \<le> length (c # s). take (length sep) (drop i (c # s)) = sep"
    then obtain i where i: "i \<le> length (c # s)" "take (length sep) (drop i (c # s)) = sep"
      by blast
    show "take (length sep) (c # s) = sep \<or> (\<exists>j \<le> length s. take (length sep) (drop j s) = sep)"
    proof (cases i)
      case 0
      with i show ?thesis by simp
    next
      case (Suc j)
      with i have "j \<le> length s" "take (length sep) (drop j s) = sep" by simp_all
      then show ?thesis by blast
    qed
  next
    assume "take (length sep) (c # s) = sep \<or> (\<exists>j \<le> length s. take (length sep) (drop j s) = sep)"
    then show "\<exists>i \<le> length (c # s). take (length sep) (drop i (c # s)) = sep"
    proof
      assume "take (length sep) (c # s) = sep"
      then have "take (length sep) (drop 0 (c # s)) = sep" by simp
      then show ?thesis by blast
    next
      assume "\<exists>j \<le> length s. take (length sep) (drop j s) = sep"
      then obtain j where "j \<le> length s" "take (length sep) (drop j s) = sep" by blast
      then have "Suc j \<le> length (c # s)" "take (length sep) (drop (Suc j) (c # s)) = sep"
        by simp_all
      then show ?thesis by blast
    qed
  qed
  with Cons.IH show ?case by simp
qed

lemma no_occurrence_inside:
  assumes "\<not> contains sep a" and "i + length sep \<le> length a"
  shows "take (length sep) (drop i (a @ b)) \<noteq> sep"
proof -
  have "take (length sep) (drop i (a @ b)) = take (length sep) (drop i a)"
    using assms(2) by simp
  moreover have "i \<le> length a" using assms(2) by simp
  ultimately show ?thesis
    using assms(1) contains_iff [of sep a] by auto
qed

lemma contains_snoc:
  assumes "contains sep (a @ [c])" and "sep \<noteq> []" and "last sep \<noteq> c"
  shows "contains sep a"
proof -
  from assms(1) obtain i where i: "i \<le> length (a @ [c])"
    "take (length sep) (drop i (a @ [c])) = sep"
    using contains_iff [of sep "a @ [c]"] by blast
  have "length (take (length sep) (drop i (a @ [c]))) = length sep"
    using i(2) by simp
  then have len: "length sep \<le> length (a @ [c]) - i"
    by simp
  show ?thesis
  proof (cases "i + length sep \<le> length a")
    case True
    then have "take (length sep) (drop i a) = sep" using i(2) by simp
    moreover have "i \<le> length a" using True by simp
    ultimately show ?thesis using contains_iff [of sep a] by blast
  next
    case False
    have "1 \<le> length sep" using assms(2) by (cases sep) auto
    moreover have "length (a @ [c]) = length a + 1" by simp
    ultimately have e: "i + length sep = length a + 1" using len False by arith
    then have "take (length sep) (drop i (a @ [c])) = drop i (a @ [c])" by simp
    with i(2) have "sep = drop i (a @ [c])" by simp
    moreover have "i \<le> length a" using e assms(2) by (cases sep) auto
    ultimately have "sep = drop i a @ [c]" by simp
    then have "last sep = c" by simp
    with assms(3) show ?thesis by simp
  qed
qed

lemma split_from_first:
  assumes "sep \<noteq> []"
    and "\<forall>i < length pre. take (length sep) (drop i (pre @ sep @ rest)) \<noteq> sep"
  shows "split_from sep cur (pre @ sep @ rest) = (rev cur @ pre) # split_from sep [] rest"
  using assms(2)
proof (induction pre arbitrary: cur)
  case Nil
  obtain c s where cs: "sep = c # s" using assms(1) by (cases sep) auto
  show ?case by (simp add: cs)
next
  case (Cons p pre)
  have "take (length sep) (drop 0 ((p # pre) @ sep @ rest)) \<noteq> sep"
    using Cons.prems by blast
  then have no: "take (length sep) (p # pre @ sep @ rest) \<noteq> sep" by simp
  have "\<forall>i < length pre. take (length sep) (drop i (pre @ sep @ rest)) \<noteq> sep"
  proof (intro allI impI)
    fix i assume "i < length pre"
    then have "Suc i < length (p # pre)" by simp
    then have "take (length sep) (drop (Suc i) ((p # pre) @ sep @ rest)) \<noteq> sep"
      using Cons.prems by blast
    then show "take (length sep) (drop i (pre @ sep @ rest)) \<noteq> sep" by simp
  qed
  from Cons.IH [OF this, of "p # cur"] no show ?case by simp
qed

lemma hd_split_from_any: "\<exists>u. hd (split_from sep cur s) = rev cur @ u"
proof (induction s arbitrary: cur)
  case Nil
  show ?case by simp
next
  case (Cons c s)
  show ?case
  proof (cases "sep \<noteq> [] \<and> take (length sep) (c # s) = sep")
    case True
    then show ?thesis by simp
  next
    case False
    then have "split_from sep cur (c # s) = split_from sep (c # cur) s" by auto
    with Cons.IH [of "c # cur"] show ?thesis by auto
  qed
qed

lemma hd_split_from_prefix:
  assumes "\<forall>i < k. take (length sep) (drop i s) \<noteq> sep" and "k \<le> length s"
  shows "\<exists>u. hd (split_from sep cur s) = rev cur @ take k s @ u"
  using assms
proof (induction k arbitrary: s cur)
  case 0
  then show ?case using hd_split_from_any [of sep cur s] by simp
next
  case (Suc k)
  then obtain c s' where s: "s = c # s'" by (cases s) auto
  have "take (length sep) (drop 0 s) \<noteq> sep" using Suc.prems(1) by blast
  then have no: "take (length sep) (c # s') \<noteq> sep" by (simp add: s)
  have "\<forall>i < k. take (length sep) (drop i s') \<noteq> sep"
  proof (intro allI impI)
    fix i assume "i < k"
    then have "take (length sep) (drop (Suc i) s) \<noteq> sep" using Suc.prems(1) by simp
    then show "take (length sep) (drop i s') \<noteq> sep" by (simp add: s)
  qed
  moreover have "k \<le> length s'" using Suc.prems(2) s by simp
  ultimately obtain u where "hd (split_from sep (c # cur) s') = rev (c # cur) @ take k s' @ u"
    using Suc.IH [of s' "c # cur"] by blast
  then show ?case using no by (auto simp: s)
qed

lemma split_from_nonempty: "split_from sep cur s \<noteq> []"
  by (induction sep cur s rule: split_from.induct) auto

lemma contains_middle: "contains sep (a @ sep @ b)"
proof (induction a)
  case Nil
  show ?case
  proof (cases "sep @ b")
    case Nil
    then show ?thesis by simp
  next
    case (Cons c s)
    have "take (length sep) (sep @ b) = sep" by simp
    then show ?thesis by (simp add: Cons)
  qed
next
  case (Cons x a)
  then show ?case by simp
qed

lemma text_pattern:
  assumes eq: "body = pre @ ''In '' @ name @ '' ['' @ rest"
    and h1: "\<not> contains ''In '' (pre @ ''In'')"
    and h2: "\<not> contains ''In '' (name @ '' '')"
    and h3: "\<not> contains '' ['' name"
  shows "contains ''In '' body" and "contains ''['' body"
    and "\<exists>u more more'. split ''In '' body = pre # (name @ '' ['' @ u) # more
           \<and> split '' ['' (name @ '' ['' @ u) = name # more'"
proof -
  let ?R = "name @ '' ['' @ rest"
  show "contains ''In '' body"
    unfolding eq by (rule contains_middle)
  have "body = (pre @ ''In '' @ name @ '' '') @ ''['' @ rest"
    by (simp add: eq)
  then show "contains ''['' body"
    using contains_middle [of "''[''" "pre @ ''In '' @ name @ '' ''" rest] by simp
  have a: "\<forall>i < length pre. take (length ''In '') (drop i (pre @ ''In '' @ ?R)) \<noteq> ''In ''"
  proof (intro allI impI)
    fix i assume "i < length pre"
    then have "i + length ''In '' \<le> length (pre @ ''In'')" by simp
    from no_occurrence_inside [OF h1 this, of "CHR '' '' # ?R"]
    show "take (length ''In '') (drop i (pre @ ''In '' @ ?R)) \<noteq> ''In ''" by simp
  qed
  have b: "split ''In '' body = pre # split_from ''In '' [] ?R"
    using split_from_first [of "''In ''" pre ?R "[]"] a by (simp add: split_def eq)
  have h2': "\<not> contains ''In '' (name @ '' ['')"
    using contains_snoc [of "''In ''" "name @ '' ''" "CHR ''[''"] h2 by auto
  have c: "\<forall>i < length name + 2. take (length ''In '') (drop i ?R) \<noteq> ''In ''"
  proof (intro allI impI)
    fix i assume i: "i < length name + 2"
    show "take (length ''In '') (drop i ?R) \<noteq> ''In ''"
    proof (cases "i + length ''In '' \<le> length (name @ '' ['')")
      case True
      from no_occurrence_inside [OF h2' True, of rest] show ?thesis by simp
    next
      case False
      with i have "i = length name \<or> i = length name + 1" by auto
      then show ?thesis by auto
    qed
  qed
  have "length name + 2 \<le> length ?R" by simp
  from hd_split_from_prefix [OF c this, of "[]"] obtain u where
    u: "hd (split_from ''In '' [] ?R) = name @ '' ['' @ u" by auto
  obtain more where more: "split_from ''In '' [] ?R = (name @ '' ['' @ u) # more"
    using u split_from_nonempty [of "''In ''" "[]" ?R]
    by (cases "split_from ''In '' [] ?R") auto
  have h3': "\<not> contains '' ['' (name @ '' '')"
    using contains_snoc [of "'' [''" name "CHR '' ''"] h3 by auto
  have d: "\<forall>i < length name. take (length '' ['') (drop i (name @ '' ['' @ u)) \<noteq> '' [''"
  proof (intro allI impI)
    fix i assume "i < length name"
    then have "i + length '' ['' \<le> length (name @ '' '')" by simp
    from no_occurrence_inside [OF h3' this, of "CHR ''['' # u"]
    show "take (length '' ['') (drop i (name @ '' ['' @ u)) \<noteq> '' [''" by simp
  qed
  have e: "split '' ['' (name @ '' ['' @ u) = name # split_from '' ['' [] u"
    using split_from_first [of "'' [''" name u "[]"] d by (simp add: split_def)
  have "split ''In '' body = pre # (name @ '' ['' @ u) # more"
    using b more by simp
  with e
  show "\<exists>u more more'. split ''In '' body = pre # (name @ '' ['' @ u) # more
           \<and> split '' ['' (name @ '' ['' @ u) = name # more'"
    by blast
qed

lemma project_of_row_text:
  assumes "dataLink r = [] \<or> dataLink r = ''nan''"
    and "blurb r = pre @ ''In '' @ name @ '' ['' @ rest"
    and "\<not> contains ''In '' (pre @ ''In'')"
    and "\<not> contains ''In '' (name @ '' '')"
    and "\<not> contains '' ['' name"
  shows "project_of_row urlparse_path r =
           (if strip name \<noteq> [] \<and> length (strip name) < 100 \<and> CHR 0x0A \<notin> set (strip name)
            then strip name else ''Unknown_Project'')"
proof -
  from text_pattern [OF assms(2-5)] obtain u more more' where
    c: "contains ''In '' (blurb r)" "contains ''['' (blurb r)"
    and s: "split ''In '' (blurb r) = pre # (name @ '' ['' @ u) # more"
      "split '' ['' (name @ '' ['' @ u) = name # more'"
    by blast
  show ?thesis
    using assms(1) c s by (auto simp add: project_of_row_def Let_def)
qed

lemma project_of_row_no_pattern:
  assumes "dataLink r = [] \<or> dataLink r = ''nan''"
    and "\<not> contains ''In '' (blurb r) \<or> \<not> contains ''['' (blurb r)"
  shows "project_of_row urlparse_path r = ''Unknown_Project''"
  using assms by (auto simp add: project_of_row_def Let_def)

lemma project_of_row_url:
  assumes "dataLink r \<noteq> []" and "dataLink r \<noteq> ''nan''"
    and "urlparse_path (dataLink r) = Some path"
  defines "segs \<equiv> filter (\<lambda>seg. seg \<noteq> []) (split ''/'' path)"
  shows "project_of_row urlparse_path r =
           (if 4 \<le> length segs then segs ! 3
            else if length segs = 3 then segs ! 2
            else ''Unknown_Project'')"
  using assms(1-3) unfolding segs_def by (auto simp add: project_of_row_def Let_def)

text \<open>
  C6, amended. For every row: when the link is present (neither empty nor \<open>nan\<close>) and
  \<open>urlparse\<close> gives a path, the project is the 4th non-empty path segment if there are
  at least four, the 3rd if there are exactly three, and \<open>Unknown_Project\<close> if there are
  fewer. When the link is absent or empty and the text has no \<open>In \<close> or no \<open>[\<close>,
  the project is \<open>Unknown_Project\<close>. When the link is absent or empty and the text is
  \<open>pre + 'In ' + name + ' [' + rest\<close>, with that \<open>In \<close> the first of the text and
  \<open>name\<close> holding no \<open>In \<close> (up to the space after it) and no \<open> [\<close>, the project
  is \<open>name\<close> trimmed, accepted only if non-empty, shorter than 100 characters and free of
  newlines, and \<open>Unknown_Project\<close> otherwise.
\<close>

theorem classification_rules:
  fixes urlparse_path :: "string \<Rightarrow> string option" and r :: row
  defines "project \<equiv> project_of_row urlparse_path r"
  shows "(\<forall>path segs. dataLink r \<noteq> [] \<and> dataLink r \<noteq> ''nan''
            \<and> urlparse_path (dataLink r) = Some path
            \<and> segs = filter (\<lambda>seg. seg \<noteq> []) (split ''/'' path) \<longrightarrow>
          (4 \<le> length segs \<longrightarrow> project = segs ! 3)
          \<and> (length segs = 3 \<longrightarrow> project = segs ! 2)
          \<and> (length segs < 3 \<longrightarrow> project = ''Unknown_Project''))
    \<and> ((dataLink r = [] \<or> dataLink r = ''nan'')
          \<and> (\<not> contains ''In '' (blurb r) \<or> \<not> contains ''['' (blurb r)) \<longrightarrow>
          project = ''Unknown_Project'')
    \<and> (\<forall>pre name rest. (dataLink r = [] \<or> dataLink r = ''nan'')
            \<and> blurb r = pre @ ''In '' @ name @ '' ['' @ rest
            \<and> \<not> contains ''In '' (pre @ ''In'')
            \<and> \<not> contains ''In '' (name @ '' '')
            \<and> \<not> contains '' ['' name \<longrightarrow>
          project = (if strip name \<noteq> [] \<and> length (strip name) < 100
                        \<and> CHR 0x0A \<notin> set (strip name)
                     then strip name else ''Unknown_Project''))"
proof -
  have a: "(4 \<le> length segs \<longrightarrow> project = segs ! 3)
          \<and> (length segs = 3 \<longrightarrow> project = segs ! 2)
          \<and> (length segs < 3 \<longrightarrow> project = ''Unknown_Project'')"
    if "dataLink r \<noteq> []" "dataLink r \<noteq> ''nan''" "urlparse_path (dataLink r) = Some path"
      "segs = filter (\<lambda>seg. seg \<noteq> []) (split ''/'' path)" for path segs
    unfolding project_def that(4)
    using project_of_row_url [of r urlparse_path path, OF that(1-3)] by auto
  have b: "project = ''Unknown_Project''"
    if "dataLink r = [] \<or> dataLink r = ''nan''"
      "\<not> contains ''In '' (blurb r) \<or> \<not> contains ''['' (blurb r)"
    unfolding project_def using that by (rule project_of_row_no_pattern)
  have c: "project = (if strip name \<noteq> [] \<and> length (strip name) < 100
                        \<and> CHR 0x0A \<notin> set (strip name)
                     then strip name else ''Unknown_Project'')"
    if "dataLink r = [] \<or> dataLink r = ''nan''"
      "blurb r = pre @ ''In '' @ name @ '' ['' @ rest"
      "\<not> contains ''In '' (pre @ ''In'')" "\<not> contains ''In '' (name @ '' '')"
      "\<not> contains '' ['' name" for pre name rest
    unfolding project_def using that by (rule project_of_row_text)
  from a b c show ?thesis by blast
qed

text \<open>
  C6, as the specification has it, takes the text between \<open>In \<close> and a later \<open> [\<close>.
  The code asks for \<open>In \<close> and \<open>[\<close> anywhere in the text, and cuts what follows the
  first \<open>In \<close> at the next \<open>In \<close> and then at the first \<open> [\<close>. The text
  \<open>In Foo[bar]\<close> has no \<open> [\<close> at all and yet gives the project \<open>Foo[bar]\<close>, and
  in \<open>In LogIn [u]\<close> the text between \<open>In \<close> and \<open> [\<close> is \<open>LogIn\<close> but the
  project is \<open>Log\<close>.
\<close>

theorem text_rule_counterexample:
  "\<not> contains '' ['' ''In Foo[bar]''
   \<and> project_of_row example_urlparse
        \<lparr>timestamp = Some 0, dataLink = ''nan'', blurb = ''In Foo[bar]''\<rparr> = ''Foo[bar]''
   \<and> ''Foo[bar]'' \<noteq> ''Unknown_Project''
   \<and> project_of_row example_urlparse
        \<lparr>timestamp = Some 0, dataLink = ''nan'', blurb = ''In LogIn [u]''\<rparr> = ''Log''"
  by code_simp

text \<open>
  The theorem on the two kinds of example rows: the link of project Q has five path
  segments, the fourth of which is \<open>Q\<close>, and the text \<open>In P [x]\<close> gives \<open>P\<close>. A
  name that is a no-break space only, code point 160, is trimmed to nothing and gives
  \<open>Unknown_Project\<close>.
\<close>

theorem classification_rules_witness:
  "example_urlparse (dataLink link_row) = Some ''/pri/get/Gitea_OD/Q/a.txt''
   \<and> filter (\<lambda>seg. seg \<noteq> []) (split ''/'' ''/pri/get/Gitea_OD/Q/a.txt'') =
       [''pri'', ''get'', ''Gitea_OD'', ''Q'', ''a.txt'']
   \<and> project_of_row example_urlparse link_row = ''Q''
   \<and> blurb (text_row 84600) = [] @ ''In '' @ ''P'' @ '' ['' @ ''x]''
   \<and> project_of_row example_urlparse (text_row 84600) = ''P''
   \<and> strip [CHR 0xA0] = []
   \<and> project_of_row example_urlparse
        \<lparr>timestamp = Some 0, dataLink = ''nan'',
         blurb = [] @ ''In '' @ [CHR 0xA0] @ '' ['' @ ''x]''\<rparr> = ''Unknown_Project''"
proof -
  let ?segs = "[''pri'', ''get'', ''Gitea_OD'', ''Q'', ''a.txt'']"
  have u: "example_urlparse (dataLink link_row) = Some ''/pri/get/Gitea_OD/Q/a.txt''"
    by code_simp
  have s: "filter (\<lambda>seg. seg \<noteq> []) (split ''/'' ''/pri/get/Gitea_OD/Q/a.txt'') = ?segs"
    by code_simp
  have l: "dataLink link_row \<noteq> [] \<and> dataLink link_row \<noteq> ''nan''"
    by code_simp
  have "dataLink link_row \<noteq> [] \<and> dataLink link_row \<noteq> ''nan''
      \<and> example_urlparse (dataLink link_row) = Some ''/pri/get/Gitea_OD/Q/a.txt''
      \<and> ?segs = filter (\<lambda>seg. seg \<noteq> []) (split ''/'' ''/pri/get/Gitea_OD/Q/a.txt'')"
    using u s l by simp
  from classification_rules [of link_row example_urlparse, THEN conjunct1, rule_format, OF this]
  have "4 \<le> length ?segs \<longrightarrow> project_of_row example_urlparse link_row = ?segs ! 3"
    by blast
  then have q: "project_of_row example_urlparse link_row = ''Q''"
    by simp
  have b: "blurb (text_row 84600) = [] @ ''In '' @ ''P'' @ '' ['' @ ''x]''"
    by (simp add: text_row_def)
  have "(dataLink (text_row 84600) = [] \<or> dataLink (text_row 84600) = ''nan'')
      \<and> blurb (text_row 84600) = [] @ ''In '' @ ''P'' @ '' ['' @ ''x]''
      \<and> \<not> contains ''In '' ([] @ ''In'')
      \<and> \<not> contains ''In '' (''P'' @ '' '')
      \<and> \<not> contains '' ['' ''P''"
    by code_simp
  from classification_rules [of "text_row 84600" example_urlparse, THEN conjunct2, THEN conjunct2,
      rule_format, OF this]
  have "project_of_row example_urlparse (text_row 84600) =
      (if strip ''P'' \<noteq> [] \<and> length (strip ''P'') < 100 \<and> CHR 0x0A \<notin> set (strip ''P'')
       then strip ''P'' else ''Unknown_Project'')" .
  moreover have "strip ''P'' = ''P''"
    by code_simp
  ultimately have p: "project_of_row example_urlparse (text_row 84600) = ''P''"
    by simp
  let ?r = "\<lparr>timestamp = Some 0, dataLink = ''nan'',
         blurb = [] @ ''In '' @ [CHR 0xA0] @ '' ['' @ ''x]''\<rparr>"
  have st: "strip [CHR 0xA0] = []"
    by code_simp
  have "(dataLink ?r = [] \<or> dataLink ?r = ''nan'')
      \<and> blurb ?r = [] @ ''In '' @ [CHR 0xA0] @ '' ['' @ ''x]''
      \<and> \<not> contains ''In '' ([] @ ''In'')
      \<and> \<not> contains ''In '' ([CHR 0xA0] @ '' '')
      \<and> \<not> contains '' ['' [CHR 0xA0]"
    by code_simp
  from classification_rules [of ?r example_urlparse, THEN conjunct2, THEN conjunct2,
      rule_format, OF this]
  have "project_of_row example_urlparse ?r =
      (if strip [CHR 0xA0] \<noteq> [] \<and> length (strip [CHR 0xA0]) < 100
          \<and> CHR 0x0A \<notin> set (strip [CHR 0xA0])
       then strip [CHR 0xA0] else ''Unknown_Project'')" .
  then have n: "project_of_row example_urlparse ?r = ''Unknown_Project''"
    unfolding st by simp
  from u s q b p st n show ?thesis by blast
qed

section \<open>Facts about the analysis\<close>

lemma set_first_seen [simp]: "set (first_seen xs) = set xs"
  by (simp add: first_seen_def)

lemma dom_map_of_graph: "dom (map_of (map (\<lambda>p. (p, f p)) xs)) = set xs"
  by (simp add: dom_map_of_conv_image_fst image_image)

lemma set_significant_projects:
  "set (significant_projects cfg projects) =
     {p. 0 < count_list projects p \<and> min_activities cfg \<le> int (count_list projects p)
         \<and> p \<noteq> ''Unknown_Project''}"
proof -
  have "p \<in> set projects \<longleftrightarrow> 0 < count_list projects p" for p
    using count_list_0_iff [of projects p] by auto
  then show ?thesis
    by (auto simp: significant_projects_def)
qed

lemma analyze_success:
  fixes urlparse_path :: "string \<Rightarrow> string option" and rows :: "row list"
  assumes "to_datetimes localize (map fst (numeric_rows rows)) = Some datetimes"
  defines "projects \<equiv> extract_project_names urlparse_path (map snd (numeric_rows rows))"
  shows "dom (project_sessions (analyze_all_projects urlparse_path localize cfg rows)) =
           set (significant_projects cfg projects)"
    and "dom (project_hours (analyze_all_projects urlparse_path localize cfg rows)) =
           set (significant_projects cfg projects)"
    and "dom (project_counts (analyze_all_projects urlparse_path localize cfg rows)) =
           set projects"
  using assms(1) unfolding projects_def
  by (simp_all add: analyze_all_projects_def Let_def dom_map_of_graph)

text \<open>
  C7. On a run that reaches the aggregation (the timestamp conversion did not fail), a
  project, that is a tag given to at least one event, is in the result set if and only if
  its raw event count is at least \<open>min_activities\<close> and it is not \<open>Unknown_Project\<close>. The
  daily hours and the sessions have the same projects, and a project with fewer than
  \<open>min_activities\<close> events is in neither, whatever its hours.
\<close>

theorem significant_iff:
  fixes urlparse_path :: "string \<Rightarrow> string option" and rows :: "row list"
    and localize :: "datetime \<Rightarrow> datetime option" and cfg :: config
  assumes "to_datetimes localize (map fst (numeric_rows rows)) = Some datetimes"
  defines "projects \<equiv> extract_project_names urlparse_path (map snd (numeric_rows rows))"
  defines "res \<equiv> analyze_all_projects urlparse_path localize cfg rows"
  shows "(p \<in> dom (project_sessions res) \<longleftrightarrow>
            0 < count_list projects p \<and> min_activities cfg \<le> int (count_list projects p)
            \<and> p \<noteq> ''Unknown_Project'')
    \<and> (p \<in> dom (project_hours res) \<longleftrightarrow> p \<in> dom (project_sessions res))
    \<and> (int (count_list projects p) < min_activities cfg \<longrightarrow>
          p \<notin> dom (project_sessions res) \<and> p \<notin> dom (project_hours res))"
proof -
  have s: "dom (project_sessions res) = set (significant_projects cfg projects)"
    unfolding res_def projects_def using assms(1) by (rule analyze_success(1))
  have h: "dom (project_hours res) = set (significant_projects cfg projects)"
    unfolding res_def projects_def using assms(1) by (rule analyze_success(2))
  show ?thesis
    unfolding s h set_significant_projects by auto
qed

text \<open>
  The theorem on the example rows with the default configuration: P, with four events, is
  in the result; Q, with one, is not.
\<close>

theorem significant_iff_witness:
  "to_datetimes Some (map fst (numeric_rows example_rows)) =
     Some [84600000000, 85200000000, 86700000000, 87000000000, 90000000000]
   \<and> extract_project_names example_urlparse (map snd (numeric_rows example_rows)) =
     [''P'', ''P'', ''P'', ''P'', ''Q'']
   \<and> ''P'' \<in> dom (project_sessions
         (analyze_all_projects example_urlparse Some default_config example_rows))
   \<and> ''Q'' \<notin> dom (project_sessions
         (analyze_all_projects example_urlparse Some default_config example_rows))"
proof -
  have ts: "map fst (numeric_rows example_rows) = [84600, 85200, 86700, 87000, 90000]"
    by code_simp
  have "to_datetimes Some [84600, 85200, 86700, 87000, 90000] =
      Some [84600000000, 85200000000, 86700000000, 87000000000, 90000000000]"
    by code_simp
  then have conv: "to_datetimes Some (map fst (numeric_rows example_rows)) =
      Some [84600000000, 85200000000, 86700000000, 87000000000, 90000000000]"
    by (simp only: ts)
  have pr: "extract_project_names example_urlparse (map snd (numeric_rows example_rows)) =
      [''P'', ''P'', ''P'', ''P'', ''Q'']"
    by code_simp
  have m: "min_activities default_config = 3"
    by (simp add: default_config_def)
  have p: "''P'' \<in> dom (project_sessions
         (analyze_all_projects example_urlparse Some default_config example_rows))"
    using significant_iff [OF conv, where urlparse_path = example_urlparse
        and cfg = default_config and p = "''P''"]
    unfolding pr m by simp
  have q: "''Q'' \<notin> dom (project_sessions
         (analyze_all_projects example_urlparse Some default_config example_rows))"
    using significant_iff [OF conv, where urlparse_path = example_urlparse
        and cfg = default_config and p = "''Q''"]
    unfolding pr m by simp
  from conv pr p q show ?thesis by blast
qed

lemma numeric_rows_filter:
  "numeric_rows (filter (\<lambda>r. timestamp r \<noteq> None) rows) = numeric_rows rows"
  by (induction rows) (auto simp: numeric_rows_def List.map_filter_simps split: option.splits)

lemma numeric_rows_none:
  "\<forall>r \<in> set rows. timestamp r = None \<Longrightarrow> numeric_rows rows = []"
  by (induction rows) (auto simp: numeric_rows_def List.map_filter_simps split: option.splits)

lemma numeric_rows_drop:
  "timestamp bad = None \<Longrightarrow> numeric_rows (before @ bad # after) = numeric_rows (before @ after)"
  by (induction before) (auto simp: numeric_rows_def List.map_filter_simps split: option.splits)

lemma analyze_numeric_rows:
  "numeric_rows rows = numeric_rows rows' \<Longrightarrow>
   analyze_all_projects urlparse_path localize cfg rows =
   analyze_all_projects urlparse_path localize cfg rows'"
  by (simp add: analyze_all_projects_def)

lemma map_of_graph:
  "map_of (map (\<lambda>p. (p, f p)) xs) p = (if p \<in> set xs then Some (f p) else None)"
  by (induction xs) auto

lemma snd_numeric_rows:
  "map snd (numeric_rows rows) = filter (\<lambda>r. timestamp r \<noteq> None) rows"
  by (induction rows) (auto simp: numeric_rows_def List.map_filter_simps split: option.splits)

lemma count_list_map_filter:
  "count_list (map f (filter P xs)) y = length (filter (\<lambda>x. P x \<and> f x = y) xs)"
  by (induction xs) auto

lemma counts_lookup:
  assumes "\<not> run_fails localize rows"
  shows "project_counts (analyze_all_projects urlparse_path localize cfg rows) p =
           (if 0 < counted_under urlparse_path rows p
            then Some (counted_under urlparse_path rows p) else None)"
proof -
  from assms obtain datetimes where
    c: "to_datetimes localize (map fst (numeric_rows rows)) = Some datetimes"
    by (auto simp: run_fails_def)
  let ?projects = "extract_project_names urlparse_path (map snd (numeric_rows rows))"
  have n: "count_list ?projects p = counted_under urlparse_path rows p"
    by (simp add: extract_project_names_def snd_numeric_rows count_list_map_filter
        counted_under_def)
  have m: "p \<in> set ?projects \<longleftrightarrow> 0 < count_list ?projects p"
    using count_list_0_iff [of ?projects p] by auto
  have "project_counts (analyze_all_projects urlparse_path localize cfg rows) p =
      (if p \<in> set ?projects then Some (count_list ?projects p) else None)"
    using c by (simp add: analyze_all_projects_def Let_def map_of_graph)
  then show ?thesis
    unfolding m n .
qed

lemma no_numeric_rows:
  assumes "\<forall>r \<in> set rows. timestamp r = None"
  shows "\<not> run_fails localize rows"
    and "analyze_all_projects urlparse_path localize cfg rows = empty_results"
proof -
  have e: "numeric_rows rows = []" using assms by (rule numeric_rows_none)
  show "\<not> run_fails localize rows"
    by (simp add: run_fails_def e to_datetimes_def is_milliseconds_def)
  show "analyze_all_projects urlparse_path localize cfg rows = empty_results"
    using e
    by (simp add: analyze_all_projects_def to_datetimes_def is_milliseconds_def
        extract_project_names_def significant_projects_def first_seen_def empty_results_def)
qed

text \<open>
  C8, as the specification has it, makes the run fail when the whole timestamp column is
  non-numeric. On two rows without a numeric timestamp every row is dropped, the
  conversion of the empty column raises nothing, and the run ends in the ordinary way:
  the failure branch is not taken, and the results are empty because no row is left.
\<close>

theorem all_bad_rows_no_failure:
  "timestamp bad_row = None
   \<and> \<not> run_fails Some [bad_row, bad_row]
   \<and> analyze_all_projects example_urlparse Some default_config [bad_row, bad_row] = empty_results"
proof -
  have b: "timestamp bad_row = None"
    by (simp add: bad_row_def)
  then have all_bad: "\<forall>r \<in> set [bad_row, bad_row]. timestamp r = None"
    by simp
  from b no_numeric_rows [OF all_bad] show ?thesis by blast
qed

text \<open>
  C8, amended. A row whose timestamp is not numeric is dropped: the result is the one of
  the input without that row, and of the input without all such rows. The remaining rows
  are still processed: unless the conversion fails, every project is counted with the
  number of rows that have a numeric timestamp and are classified as that project. When
  no row has a numeric timestamp the run does not fail; it completes on the empty table
  and the caller receives the empty results.
\<close>

theorem bad_timestamps:
  "(timestamp bad = None \<longrightarrow>
      analyze_all_projects urlparse_path localize cfg (before @ bad # after) =
      analyze_all_projects urlparse_path localize cfg (before @ after))
   \<and> analyze_all_projects urlparse_path localize cfg rows =
      analyze_all_projects urlparse_path localize cfg (filter (\<lambda>r. timestamp r \<noteq> None) rows)
   \<and> (\<not> run_fails localize rows \<longrightarrow>
      project_counts (analyze_all_projects urlparse_path localize cfg rows) p =
        (if 0 < counted_under urlparse_path rows p
         then Some (counted_under urlparse_path rows p) else None))
   \<and> ((\<forall>r \<in> set rows. timestamp r = None) \<longrightarrow>
      \<not> run_fails localize rows
      \<and> analyze_all_projects urlparse_path localize cfg rows = empty_results)"
proof -
  have a: "timestamp bad = None \<longrightarrow>
      analyze_all_projects urlparse_path localize cfg (before @ bad # after) =
      analyze_all_projects urlparse_path localize cfg (before @ after)"
    using numeric_rows_drop [of bad before after] analyze_numeric_rows by blast
  have b: "analyze_all_projects urlparse_path localize cfg rows =
      analyze_all_projects urlparse_path localize cfg (filter (\<lambda>r. timestamp r \<noteq> None) rows)"
    by (rule analyze_numeric_rows) (simp only: numeric_rows_filter)
  have c: "\<not> run_fails localize rows \<longrightarrow>
      project_counts (analyze_all_projects urlparse_path localize cfg rows) p =
        (if 0 < counted_under urlparse_path rows p
         then Some (counted_under urlparse_path rows p) else None)"
    using counts_lookup by blast
  have d: "(\<forall>r \<in> set rows. timestamp r = None) \<longrightarrow>
      \<not> run_fails localize rows
      \<and> analyze_all_projects urlparse_path localize cfg rows = empty_results"
    using no_numeric_rows by blast
  from a b c d show ?thesis by blast
qed

text \<open>
  The theorem on the example rows: the run is the one on the five rows with a numeric
  timestamp, it does not fail, and project P is counted four times, once for each of its
  rows with a numeric timestamp and not for the row without one. Two rows without a
  numeric timestamp give the empty results without a failure.
\<close>

theorem bad_timestamps_witness:
  "timestamp bad_row = None
   \<and> analyze_all_projects example_urlparse Some default_config example_rows =
       analyze_all_projects example_urlparse Some default_config
         (filter (\<lambda>r. timestamp r \<noteq> None) example_rows)
   \<and> length (filter (\<lambda>r. timestamp r \<noteq> None) example_rows) = 5
   \<and> \<not> run_fails Some example_rows
   \<and> counted_under example_urlparse example_rows ''P'' = 4
   \<and> project_counts (analyze_all_projects example_urlparse Some default_config example_rows) ''P''
       = Some 4
   \<and> \<not> run_fails Some [bad_row, bad_row]
   \<and> analyze_all_projects example_urlparse Some default_config [bad_row, bad_row] =
       empty_results"
proof -
  have b: "timestamp bad_row = None"
    by (simp add: bad_row_def)
  then have all_bad: "\<forall>r \<in> set [bad_row, bad_row]. timestamp r = None"
    by simp
  have n: "length (filter (\<lambda>r. timestamp r \<noteq> None) example_rows) = 5"
    by (simp add: example_rows_def bad_row_def text_row_def link_row_def)
  have f: "\<not> run_fails Some example_rows"
    unfolding run_fails_def by code_simp
  have k: "counted_under example_urlparse example_rows ''P'' = 4"
    by code_simp
  note th = bad_timestamps [where urlparse_path = example_urlparse and localize = Some
      and cfg = default_config]
  from th [where rows = example_rows]
  have e: "analyze_all_projects example_urlparse Some default_config example_rows =
       analyze_all_projects example_urlparse Some default_config
         (filter (\<lambda>r. timestamp r \<noteq> None) example_rows)"
    by blast
  from th [where rows = example_rows and p = "''P''"] f
  have "project_counts (analyze_all_projects example_urlparse Some default_config example_rows) ''P''
       = (if 0 < counted_under example_urlparse example_rows ''P''
          then Some (counted_under example_urlparse example_rows ''P'') else None)"
    by blast
  then have c: "project_counts
      (analyze_all_projects example_urlparse Some default_config example_rows) ''P'' = Some 4"
    unfolding k by simp
  from th [where rows = "[bad_row, bad_row]"] all_bad
  have g: "\<not> run_fails Some [bad_row, bad_row]
      \<and> analyze_all_projects example_urlparse Some default_config [bad_row, bad_row] =
       empty_results"
    by blast
  from b e n f k c g show ?thesis by blast
qed

subsection \<open>Daily hours and the merged sessions\<close>

lemma analyze_lookup:
  fixes urlparse_path :: "string \<Rightarrow> string option" and rows :: "row list"
    and localize :: "datetime \<Rightarrow> datetime option" and cfg :: config
  assumes "to_datetimes localize (map fst (numeric_rows rows)) = Some datetimes"
  defines "projects \<equiv> extract_project_names urlparse_path (map snd (numeric_rows rows))"
  defines "res \<equiv> analyze_all_projects urlparse_path localize cfg rows"
  shows "project_hours res p =
           (if p \<in> set (significant_projects cfg projects)
            then Some (fst (build_sessions cfg (project_datetimes projects datetimes p)))
            else None)"
    and "project_sessions res p =
           (if p \<in> set (significant_projects cfg projects)
            then Some (merge_overlapping_sessions
                   (snd (build_sessions cfg (project_datetimes projects datetimes p))))
            else None)"
  using assms(1) unfolding res_def projects_def
  by (simp_all add: analyze_all_projects_def Let_def map_of_graph analyze_project_def
      project_datetimes_def split: prod.splits)

lemma example_conversion:
  "to_datetimes Some (map fst (numeric_rows example_rows)) =
      Some [84600000000, 85200000000, 86700000000, 87000000000, 90000000000]"
proof -
  have ts: "map fst (numeric_rows example_rows) = [84600, 85200, 86700, 87000, 90000]"
    by code_simp
  have "to_datetimes Some [84600, 85200, 86700, 87000, 90000] =
      Some [84600000000, 85200000000, 86700000000, 87000000000, 90000000000]"
    by code_simp
  then show ?thesis by (simp only: ts)
qed

lemma example_projects:
  "extract_project_names example_urlparse (map snd (numeric_rows example_rows)) =
      [''P'', ''P'', ''P'', ''P'', ''Q'']"
  by code_simp

lemma example_significant:
  "''P'' \<in> set (significant_projects default_config [''P'', ''P'', ''P'', ''P'', ''Q''])"
  by code_simp

lemma example_datetimes:
  "project_datetimes [''P'', ''P'', ''P'', ''P'', ''Q'']
     [84600000000, 85200000000, 86700000000, 87000000000, 90000000000] ''P'' =
     [84600000000, 85200000000, 86700000000, 87000000000]"
  by code_simp

lemma example_built:
  "snd (build_sessions default_config [84600000000, 85200000000, 86700000000, 87000000000]) =
     [make_session (clock 0 23 30) (clock 1 0 0), make_session (clock 1 0 0) (clock 1 0 30)]"
proof -
  have g: "day_groups [84600000000, 85200000000, 86700000000, 87000000000] =
      [(0, [84600000000, 85200000000]), (1, [86700000000, 87000000000])]"
    by code_simp
  have s0: "day_segments default_config [84600000000, 85200000000] =
      [(84600000000, 86100000000)]"
    by code_simp
  have s1: "day_segments default_config [86700000000, 87000000000] =
      [(86700000000, 87900000000)]"
    by code_simp
  have w0: "session_with_floor (1 / 4) (84600000000, 86100000000) =
      make_session (clock 0 23 30) (clock 1 0 0)"
    by code_simp
  have w1: "session_with_floor (1 / 4) (86700000000, 87900000000) =
      make_session (clock 1 0 0) (clock 1 0 30)"
    by code_simp
  show ?thesis
    unfolding build_sessions_eq g
    by (simp only: list.map concat.simps prod.case s0 s1 w0 w1 append.simps)
qed

lemma example_two_events:
  "2 \<le> length (filter (\<lambda>t. date_of t = 0)
       [84600000000, 85200000000, 86700000000, 87000000000])"
  by code_simp

lemma example_daily:
  "fst (build_sessions default_config [84600000000, 85200000000, 86700000000, 87000000000]) 0 =
     Some (1 / 2)"
proof -
  have "day_total [make_session (clock 0 23 30) (clock 1 0 0),
      make_session (clock 1 0 0) (clock 1 0 30)] 0 = 1 / 2"
    by code_simp
  then show ?thesis
    using build_sessions_day_total [OF example_two_events, of default_config]
    by (simp only: example_built)
qed

lemma example_merged:
  "merge_overlapping_sessions
     [make_session (clock 0 23 30) (clock 1 0 0), make_session (clock 1 0 0) (clock 1 0 30)] =
     [make_session (clock 0 23 30) (clock 1 0 30)]"
  by code_simp

lemma example_lookup:
  "project_hours (analyze_all_projects example_urlparse Some default_config example_rows) ''P'' =
     Some (fst (build_sessions default_config
       [84600000000, 85200000000, 86700000000, 87000000000]))"
  "project_sessions (analyze_all_projects example_urlparse Some default_config example_rows) ''P'' =
     Some [make_session (clock 0 23 30) (clock 1 0 30)]"
proof -
  show "project_hours (analyze_all_projects example_urlparse Some default_config example_rows) ''P'' =
     Some (fst (build_sessions default_config
       [84600000000, 85200000000, 86700000000, 87000000000]))"
    using analyze_lookup(1) [OF example_conversion, of example_urlparse default_config "''P''"]
    unfolding example_projects example_datetimes using example_significant by simp
  show "project_sessions (analyze_all_projects example_urlparse Some default_config example_rows) ''P'' =
     Some [make_session (clock 0 23 30) (clock 1 0 30)]"
    using analyze_lookup(2) [OF example_conversion, of example_urlparse default_config "''P''"]
    unfolding example_projects example_datetimes example_built example_merged
    using example_significant by simp
qed

text \<open>
  C1, as the specification has it, fails on the example rows with the default
  configuration. Project P has two events late on day 0 and two early on day 1. The
  builder makes the sessions 23:30-00:00 and 00:00-00:30 and records 0.5 hours for day 0;
  the merger then joins them into one session of an hour that starts on day 0, so the
  post-merge sessions that start on day 0 sum to 1.
\<close>

theorem daily_hours_not_post_merge:
  "daily_hours_of (analyze_all_projects example_urlparse Some default_config example_rows) ''P'' 0
     = Some (1 / 2)
   \<and> sessions_of (analyze_all_projects example_urlparse Some default_config example_rows) ''P''
     = [make_session (clock 0 23 30) (clock 1 0 30)]
   \<and> day_total
       (sessions_of (analyze_all_projects example_urlparse Some default_config example_rows) ''P'') 0
     = 1"
proof -
  let ?res = "analyze_all_projects example_urlparse Some default_config example_rows"
  have a: "daily_hours_of ?res ''P'' 0 = Some (1 / 2)"
    unfolding daily_hours_of_def example_lookup(1) using example_daily by simp
  have b: "sessions_of ?res ''P'' = [make_session (clock 0 23 30) (clock 1 0 30)]"
    unfolding sessions_of_def example_lookup(2) by simp
  have "day_total [make_session (clock 0 23 30) (clock 1 0 30)] 0 = 1"
    by code_simp
  then have c: "day_total (sessions_of ?res ''P'') 0 = 1"
    unfolding b .
  from a b c show ?thesis by blast
qed

text \<open>
  C1, amended. On a run that reaches the aggregation, for every project of the result and
  every calendar date \<open>d\<close> on which the project has two or more events, the recorded
  daily total \<open>daily_hours[d]\<close> equals the sum of the hours of the sessions with start
  date \<open>d\<close> in the project's session list as the builder leaves it, before the merger
  runs; the stored sessions are the merger's output on that list.
\<close>

theorem daily_hours_pre_merge:
  fixes urlparse_path :: "string \<Rightarrow> string option" and rows :: "row list"
    and localize :: "datetime \<Rightarrow> datetime option" and cfg :: config
    and datetimes :: "datetime list" and p :: string
  assumes "to_datetimes localize (map fst (numeric_rows rows)) = Some datetimes"
  defines "projects \<equiv> extract_project_names urlparse_path (map snd (numeric_rows rows))"
  defines "res \<equiv> analyze_all_projects urlparse_path localize cfg rows"
  defines "built \<equiv> snd (build_sessions cfg (project_datetimes projects datetimes p))"
  assumes "p \<in> dom (project_hours res)"
    and "2 \<le> length (filter (\<lambda>t. date_of t = d) (project_datetimes projects datetimes p))"
  shows "daily_hours_of res p d = Some (day_total built d)
    \<and> sessions_of res p = merge_overlapping_sessions built"
proof -
  have sig: "p \<in> set (significant_projects cfg projects)"
    using assms(5) analyze_lookup(1) [OF assms(1), of urlparse_path cfg p]
    unfolding res_def projects_def by (auto split: if_splits)
  have h: "project_hours res p =
      Some (fst (build_sessions cfg (project_datetimes projects datetimes p)))"
    using sig analyze_lookup(1) [OF assms(1), of urlparse_path cfg p]
    unfolding res_def projects_def by simp
  have s: "project_sessions res p = Some (merge_overlapping_sessions built)"
    using sig analyze_lookup(2) [OF assms(1), of urlparse_path cfg p]
    unfolding res_def projects_def built_def by simp
  have "fst (build_sessions cfg (project_datetimes projects datetimes p)) d =
      Some (day_total built d)"
    unfolding built_def using assms(6) by (rule build_sessions_day_total)
  then show ?thesis
    using h s by (simp add: daily_hours_of_def sessions_of_def)
qed

text \<open>
  The theorem on the example rows, project P and day 0: the builder's list has one
  session that starts on day 0, of half an hour, and that is the recorded total.
\<close>

theorem daily_hours_pre_merge_witness:
  "''P'' \<in> dom (project_hours
       (analyze_all_projects example_urlparse Some default_config example_rows))
   \<and> 2 \<le> length (filter (\<lambda>t. date_of t = 0)
       (project_datetimes [''P'', ''P'', ''P'', ''P'', ''Q'']
          [84600000000, 85200000000, 86700000000, 87000000000, 90000000000] ''P''))
   \<and> daily_hours_of
       (analyze_all_projects example_urlparse Some default_config example_rows) ''P'' 0 =
       Some (day_total
         [make_session (clock 0 23 30) (clock 1 0 0), make_session (clock 1 0 0) (clock 1 0 30)] 0)
   \<and> sessions_of
       (analyze_all_projects example_urlparse Some default_config example_rows) ''P'' =
       merge_overlapping_sessions
         [make_session (clock 0 23 30) (clock 1 0 0), make_session (clock 1 0 0) (clock 1 0 30)]"
proof -
  have d: "''P'' \<in> dom (project_hours
       (analyze_all_projects example_urlparse Some default_config example_rows))"
    using example_lookup(1) by blast
  have l: "2 \<le> length (filter (\<lambda>t. date_of t = 0)
       (project_datetimes [''P'', ''P'', ''P'', ''P'', ''Q'']
          [84600000000, 85200000000, 86700000000, 87000000000, 90000000000] ''P''))"
    unfolding example_datetimes by (rule example_two_events)
  have l': "2 \<le> length (filter (\<lambda>t. date_of t = 0)
       (project_datetimes
          (extract_project_names example_urlparse (map snd (numeric_rows example_rows)))
          [84600000000, 85200000000, 86700000000, 87000000000, 90000000000] ''P''))"
    unfolding example_projects by (rule l)
  from daily_hours_pre_merge [OF example_conversion d l']
  have "daily_hours_of
       (analyze_all_projects example_urlparse Some default_config example_rows) ''P'' 0 =
       Some (day_total
         [make_session (clock 0 23 30) (clock 1 0 0), make_session (clock 1 0 0) (clock 1 0 30)] 0)
   \<and> sessions_of
       (analyze_all_projects example_urlparse Some default_config example_rows) ''P'' =
       merge_overlapping_sessions
         [make_session (clock 0 23 30) (clock 1 0 0), make_session (clock 1 0 0) (clock 1 0 30)]"
    unfolding example_projects example_datetimes example_built .
  with d l show ?thesis by blast
qed

end
